theory Spec2Isabelle
  imports Main "HOL-Library.Sublist"
begin

section \<open>Python values shared by the modules\<close>

text \<open>
  Paths are strings. Exceptions are values: every \<^verbatim>\<open>raise\<close> of the source is a
  branch that returns one of them.
\<close>

type_synonym path = string

datatype exn =
    NoSuchProcess           \<comment> \<open>psutil.NoSuchProcess\<close>
  | AccessDenied            \<comment> \<open>psutil.AccessDenied\<close>
  | OSError                 \<comment> \<open>any other OSError\<close>
  | PermissionError
  | FileNotFoundError
  | SameFileError           \<comment> \<open>shutil.SameFileError\<close>
  | UnicodeDecodeError
  | RuntimeError
  | ValueError

subsection \<open>str methods\<close>

text \<open>
  A character is a code point below 256. \<^verbatim>\<open>str.lower\<close> maps A-Z and the upper-case
  letters of Latin-1 (192-214, 216-222) to the code point 32 above, and leaves every other
  code point below 256 as it is.
\<close>

definition lower_char :: "char \<Rightarrow> char" where
  "lower_char c =
     (let n = (of_char c :: nat)
      in if (65 \<le> n \<and> n \<le> 90) \<or> (192 \<le> n \<and> n \<le> 214) \<or> (216 \<le> n \<and> n \<le> 222)
         then char_of (n + 32) else c)"

definition lower :: "string \<Rightarrow> string" where
  "lower s = map lower_char s"

text \<open>
  \<^verbatim>\<open>str.strip()\<close> removes leading and trailing white space; below 256 the white-space
  code points are 9-13, 28-32, 133 and 160.
\<close>

definition is_space :: "char \<Rightarrow> bool" where
  "is_space c =
     (let n = (of_char c :: nat)
      in (9 \<le> n \<and> n \<le> 13) \<or> (28 \<le> n \<and> n \<le> 32) \<or> n = 133 \<or> n = 160)"

definition strip :: "string \<Rightarrow> string" where
  "strip s = rev (dropWhile is_space (rev (dropWhile is_space s)))"

definition startswith :: "string \<Rightarrow> string \<Rightarrow> bool" where
  "startswith s p = prefix p s"

definition endswith :: "string \<Rightarrow> string \<Rightarrow> bool" where
  "endswith s p = suffix p s"

section \<open>The process probe\<close>

text \<open>
  One entry of \<^verbatim>\<open>psutil.process_iter(["name", "exe"])\<close>: the two fields of
  \<^verbatim>\<open>process.info\<close>. The executable is absent, or its \<^verbatim>\<open>Path(...).resolve()\<close>
  raises, or it resolves to a path. The snapshot of the process table is the list of what
  the iterator does: it yields an entry (\<open>Inr\<close>) or raises (\<open>Inl\<close>).
\<close>

record process =
  info_name :: "string option"
  info_exe :: "(exn + path) option"

type_synonym snapshot = "(exn + process) list"

text \<open>
  \<^verbatim>\<open>_is_process_running(process_stem, exe_path)\<close> of app.py. The \<^verbatim>\<open>except\<close> clause
  inside the loop skips the two psutil errors only; anything else leaves the function as
  an exception. \<open>exe_path\<close> is the resolved path of the target.
\<close>

definition name_matches :: "string \<Rightarrow> process \<Rightarrow> bool" where
  "name_matches process_stem p =
     (case info_name p of
        None \<Rightarrow> False
      | Some name \<Rightarrow> name \<noteq> [] \<and> startswith (lower name) process_stem)"

fun is_process_running :: "string \<Rightarrow> path \<Rightarrow> snapshot \<Rightarrow> exn + bool" where
  "is_process_running process_stem exe_path [] = Inr False"
| "is_process_running process_stem exe_path (Inl e # rest) = Inl e"
| "is_process_running process_stem exe_path (Inr p # rest) =
     (if name_matches process_stem p then Inr True
      else (case info_exe p of
              None \<Rightarrow> is_process_running process_stem exe_path rest
            | Some (Inl e) \<Rightarrow>
                if e = NoSuchProcess \<or> e = AccessDenied
                then is_process_running process_stem exe_path rest
                else Inl e
            | Some (Inr executable) \<Rightarrow>
                if executable \<noteq> [] \<and> executable = exe_path then Inr True
                else is_process_running process_stem exe_path rest))"

section \<open>ConfigMonitor (app.py)\<close>

datatype log_msg =
    LogProcessStarted       \<comment> \<open>"game process start detected"\<close>
  | LogProcessEnded         \<comment> \<open>"game process end detected"\<close>
  | LogStartedDelay int     \<comment> \<open>"game started, backup restored in n seconds"\<close>
  | LogStartedImmediate     \<comment> \<open>"game started, backup restored at once"\<close>
  | LogGameExited           \<comment> \<open>"game has exited"\<close>
  | LogSkipRestore          \<comment> \<open>"game stopped, restore skipped"\<close>
  | LogConfigNotFound       \<comment> \<open>"game configuration not found, cannot restore"\<close>
  | LogBackupMissing        \<comment> \<open>"backup file missing, cannot restore"\<close>
  | LogRestoreFailed exn    \<comment> \<open>"restore failed: exc"\<close>
  | LogRestoreDone          \<comment> \<open>"backup restored to the game directory and set read-only"\<close>
  | LogMonitorStarted path  \<comment> \<open>"monitoring started: exe"\<close>
  | LogNoGameExe            \<comment> \<open>"game executable not found, monitoring not started"\<close>
  | LogMonitorStopped       \<comment> \<open>"monitoring stopped"\<close>
  | LogMonitorError exn     \<comment> \<open>"monitor thread raised: exc"\<close>
  | LogConfigSelected path  \<comment> \<open>"configuration file selected: path"\<close>

text \<open>The calls the monitor thread makes on its \<^verbatim>\<open>MonitorCallbacks\<close>, in order.\<close>

datatype monitor_call =
    OnLog log_msg
  | OnGameStarted
  | OnGameStopped
  | OnError exn

record config_monitor =
  exe_path :: path
  process_name :: string
  interval :: int
  stop_event :: bool

text \<open>\<open>stem\<close> is \<^verbatim>\<open>exe_path.stem\<close>, which pathlib computes.\<close>

definition ConfigMonitor :: "path \<Rightarrow> string \<Rightarrow> int \<Rightarrow> config_monitor" where
  "ConfigMonitor p stem n =
     \<lparr>exe_path = p, process_name = lower stem, interval = max 1 n, stop_event = False\<rparr>"

definition stop :: "'a config_monitor_scheme \<Rightarrow> 'a config_monitor_scheme" where
  "stop m = m\<lparr>stop_event := True\<rparr>"

definition is_game_running :: "'a config_monitor_scheme \<Rightarrow> snapshot \<Rightarrow> exn + bool" where
  "is_game_running m snap = is_process_running (process_name m) (exe_path m) snap"

text \<open>How the loop of \<^verbatim>\<open>run\<close> ends, or that it is still polling when the input ends.\<close>

datatype exit = Returned | Raised exn | Polling bool

text \<open>
  The body of the \<^verbatim>\<open>while\<close> loop of \<^verbatim>\<open>ConfigMonitor.run\<close>, once per tick. A tick is
  the result of the probe (\<open>Inl\<close> when it raises) and whether the stop event is found set
  in the wait that follows (the thirty \<^verbatim>\<open>wait(0.1)\<close> slices and the loop condition).
  The \<^verbatim>\<open>except Exception\<close> clause calls \<^verbatim>\<open>on_error\<close> and raises again.
\<close>

type_synonym tick = "(exn + bool) \<times> bool"

definition edge_calls :: "bool \<Rightarrow> bool \<Rightarrow> monitor_call list" where
  "edge_calls last_running running =
     (if running \<and> \<not> last_running then [OnLog LogProcessStarted, OnGameStarted]
      else if \<not> running \<and> last_running then [OnLog LogProcessEnded, OnGameStopped]
      else [])"

fun run_loop :: "bool \<Rightarrow> tick list \<Rightarrow> monitor_call list \<times> exit" where
  "run_loop last_running [] = ([], Polling last_running)"
| "run_loop last_running ((Inl exc, stop_set) # ticks) = ([OnError exc], Raised exc)"
| "run_loop last_running ((Inr running, stop_set) # ticks) =
     (let calls = edge_calls last_running running
      in if stop_set then (calls, Returned)
         else (case run_loop running ticks of (later, e) \<Rightarrow> (calls @ later, e)))"

definition run :: "'a config_monitor_scheme \<Rightarrow> tick list \<Rightarrow> monitor_call list \<times> exit" where
  "run m ticks = (if stop_event m then ([], Returned) else run_loop False ticks)"

section \<open>GameMonitor (jiance.py)\<close>

text \<open>
  What the stand-alone monitor does that can be seen: the two desktop notifications and
  the line it prints when the probe fails.
\<close>

datatype gm_output =
    NotifyGameStarted
  | NotifyGameClosed
  | PrintProbeError exn

record game_monitor =
  game_path :: path
  game_stem :: string
  check_interval :: int
  is_running :: bool
  monitoring :: bool
  has_monitor_thread :: bool

definition GameMonitor :: "path \<Rightarrow> string \<Rightarrow> int \<Rightarrow> game_monitor" where
  "GameMonitor p stem n =
     \<lparr>game_path = p, game_stem = stem, check_interval = n, is_running = False,
      monitoring = False, has_monitor_thread = False\<rparr>"

text \<open>
  \<^verbatim>\<open>GameMonitor.is_game_running\<close>: the same scan of the process table, inside
  \<^verbatim>\<open>try ... except Exception\<close>, which prints the error and answers False.
\<close>

definition gm_is_game_running :: "game_monitor \<Rightarrow> snapshot \<Rightarrow> gm_output list \<times> bool" where
  "gm_is_game_running g snap =
     (case is_process_running (lower (game_stem g)) (game_path g) snap of
        Inl e \<Rightarrow> ([PrintProbeError e], False)
      | Inr b \<Rightarrow> ([], b))"

text \<open>
  \<^verbatim>\<open>monitor_loop\<close>: a tick is the snapshot the probe sees and the value of
  \<^verbatim>\<open>self.monitoring\<close> after the sleep. The result is what the loop put out and the
  monitor as the loop left it, or as it is when the input ends. \<^verbatim>\<open>send_notification\<close>
  catches what \<^verbatim>\<open>notification.notify\<close> raises.
\<close>

definition gm_edge :: "game_monitor \<Rightarrow> bool \<Rightarrow> gm_output list \<times> game_monitor" where
  "gm_edge g current_status =
     (if current_status \<and> \<not> is_running g
        then ([NotifyGameStarted], g\<lparr>is_running := True\<rparr>)
      else if \<not> current_status \<and> is_running g
        then ([NotifyGameClosed], g\<lparr>is_running := False\<rparr>)
      else ([], g))"

fun monitor_loop :: "game_monitor \<Rightarrow> (snapshot \<times> bool) list \<Rightarrow> gm_output list \<times> game_monitor" where
  "monitor_loop g [] = ([], g)"
| "monitor_loop g ((snap, still_monitoring) # ticks) =
     (if \<not> monitoring g then ([], g)
      else
        (case gm_is_game_running g snap of (printed, current_status) \<Rightarrow>
           (case gm_edge g current_status of (sent, g') \<Rightarrow>
              (case monitor_loop (g'\<lparr>monitoring := still_monitoring\<rparr>) ticks of
                 (later, g'') \<Rightarrow> (printed @ sent @ later, g'')))))"

definition gm_start_monitoring :: "game_monitor \<Rightarrow> game_monitor" where
  "gm_start_monitoring g =
     (if monitoring g then g else g\<lparr>monitoring := True, has_monitor_thread := True\<rparr>)"

text \<open>\<^verbatim>\<open>stop_monitoring\<close>: the \<^verbatim>\<open>join\<close> of the thread, when there is one, changes
  nothing of the monitor.\<close>

definition gm_stop_monitoring :: "game_monitor \<Rightarrow> game_monitor" where
  "gm_stop_monitoring g = g\<lparr>monitoring := False\<rparr>"

section \<open>Files\<close>

text \<open>
  A file holds bytes and a mode. The bytes are kept as what \<^verbatim>\<open>read_text\<close> makes of
  them: \<open>Text s\<close> is valid UTF-8 that decodes to \<open>s\<close>; \<open>Undecodable s\<close> is not valid
  UTF-8, and \<open>s\<close> is what decoding with \<^verbatim>\<open>errors="ignore"\<close> keeps of it. The mode is
  Python's \<^verbatim>\<open>st_mode\<close>, an unbounded integer. The disk maps the paths that exist to
  their files.

  Whether the operating system refuses a call is not in the source: every call that can
  fail takes the outcome as an argument (\<open>Some e\<close>: the call raises \<open>e\<close>). A call that
  raises is taken to leave the disk as it was.
\<close>

datatype content = Text string | Undecodable string

record file_rec =
  data :: content
  st_mode :: int

type_synonym disk = "path \<rightharpoonup> file_rec"

definition S_IWRITE :: int where
  "S_IWRITE = 128"

definition read_only :: "file_rec \<Rightarrow> bool" where
  "read_only f = (and (st_mode f) S_IWRITE = 0)"

definition exists :: "disk \<Rightarrow> path \<Rightarrow> bool" where
  "exists d p = (d p \<noteq> None)"

text \<open>\<^verbatim>\<open>Path.read_text(encoding="utf-8")\<close>, strict or with \<^verbatim>\<open>errors="ignore"\<close>.\<close>

definition read_text :: "exn option \<Rightarrow> disk \<Rightarrow> path \<Rightarrow> bool \<Rightarrow> exn + string" where
  "read_text fault d p ignore_errors =
     (case d p of
        None \<Rightarrow> Inl FileNotFoundError
      | Some f \<Rightarrow>
          (case fault of
             Some e \<Rightarrow> Inl e
           | None \<Rightarrow>
               (case data f of
                  Text s \<Rightarrow> Inr s
                | Undecodable s \<Rightarrow> if ignore_errors then Inr s else Inl UnicodeDecodeError)))"

text \<open>
  \<^verbatim>\<open>Path.write_text(s, encoding="utf-8")\<close>: the file keeps its mode; a new file gets the
  mode of a regular file that all may read and write.
\<close>

definition write_text :: "exn option \<Rightarrow> disk \<Rightarrow> path \<Rightarrow> string \<Rightarrow> exn + disk" where
  "write_text fault d p s =
     (case fault of
        Some e \<Rightarrow> Inl e
      | None \<Rightarrow>
          (case d p of
             None \<Rightarrow> Inr (d(p \<mapsto> \<lparr>data = Text s, st_mode = 33206\<rparr>))
           | Some f \<Rightarrow> Inr (d(p \<mapsto> f\<lparr>data := Text s\<rparr>))))"

text \<open>
  \<^verbatim>\<open>shutil.copy2(src, dst)\<close>: the destination gets the bytes and the mode of the
  source.
\<close>

definition copy2 :: "exn option \<Rightarrow> disk \<Rightarrow> path \<Rightarrow> path \<Rightarrow> exn + disk" where
  "copy2 fault d src dst =
     (case d src of
        None \<Rightarrow> Inl FileNotFoundError
      | Some f \<Rightarrow>
          if src = dst then Inl SameFileError
          else (case fault of
                  Some e \<Rightarrow> Inl e
                | None \<Rightarrow> Inr (d(dst \<mapsto> f))))"

text \<open>
  \<^verbatim>\<open>_ensure_writable\<close> and \<^verbatim>\<open>_ensure_read_only\<close> of app.py: \<^verbatim>\<open>stat\<close> and
  \<^verbatim>\<open>chmod\<close> inside \<^verbatim>\<open>try ... except Exception: pass\<close>. \<open>chmod_raises\<close> says that one
  of the two calls raises.
\<close>

definition ensure_writable :: "bool \<Rightarrow> disk \<Rightarrow> path \<Rightarrow> disk" where
  "ensure_writable chmod_raises d target =
     (case d target of
        None \<Rightarrow> d
      | Some f \<Rightarrow>
          if chmod_raises then d
          else d(target \<mapsto> f\<lparr>st_mode := or (st_mode f) S_IWRITE\<rparr>))"

definition ensure_read_only :: "bool \<Rightarrow> disk \<Rightarrow> path \<Rightarrow> disk" where
  "ensure_read_only chmod_raises d target =
     (case d target of
        None \<Rightarrow> d
      | Some f \<Rightarrow>
          if chmod_raises then d
          else d(target \<mapsto> f\<lparr>st_mode := and (st_mode f) (not S_IWRITE)\<rparr>))"

section \<open>The INI patch (main.py)\<close>

subsection \<open>Lines\<close>

text \<open>
  \<^verbatim>\<open>str.splitlines()\<close>: a line ends at LF, CR, CR LF, VT, FF, FS, GS, RS or NEL; the text
  after the last line end is a line when it is not empty.
\<close>

definition is_linebreak :: "char \<Rightarrow> bool" where
  "is_linebreak c =
     (let n = (of_char c :: nat)
      in (10 \<le> n \<and> n \<le> 13) \<or> (28 \<le> n \<and> n \<le> 30) \<or> n = 133)"

fun splitlines :: "string \<Rightarrow> string list" where
  "splitlines [] = []"
| "splitlines (c # cs) =
     (if c = CHR 0x0D then
        (case cs of
           [] \<Rightarrow> [[]]
         | d # ds \<Rightarrow> if d = CHR 0x0A then [] # splitlines ds else [] # splitlines cs)
      else if is_linebreak c then [] # splitlines cs
      else (case splitlines cs of
              [] \<Rightarrow> [[c]]
            | l # ls \<Rightarrow> (c # l) # ls))"

text \<open>\<^verbatim>\<open>sep.join(xs)\<close>.\<close>

fun join :: "string \<Rightarrow> string list \<Rightarrow> string" where
  "join sep [] = []"
| "join sep [x] = x"
| "join sep (x # y # ys) = x @ sep @ join sep (y # ys)"

text \<open>\<^verbatim>\<open>xs.insert(i, x)\<close> for an index that is not negative.\<close>

definition insert_at :: "nat \<Rightarrow> 'a \<Rightarrow> 'a list \<Rightarrow> 'a list" where
  "insert_at i x xs = take i xs @ [x] @ drop i xs"

subsection \<open>Reading the configuration\<close>

datatype ini_msg =
    MsgEmpty                \<comment> \<open>the empty string\<close>
  | MsgConfigMissing        \<comment> \<open>"configuration file does not exist"\<close>
  | MsgReadFailed exn       \<comment> \<open>"reading the configuration file failed: exc"\<close>
  | MsgAlreadyPresent       \<comment> \<open>"anti-aliasing setting already present, nothing to change"\<close>
  | MsgUpdatedExisting      \<comment> \<open>"existing anti-aliasing setting updated to 0"\<close>
  | MsgAddedToSection       \<comment> \<open>"setting added to the [ScalabilityGroups] section"\<close>
  | MsgAddedSection         \<comment> \<open>"new [ScalabilityGroups] section added with the setting"\<close>
  | MsgNothingChanged       \<comment> \<open>"nothing was changed"\<close>
  | MsgWriteFailed exn      \<comment> \<open>"writing the configuration file failed: exc"\<close>
  | MsgNothingToRemove      \<comment> \<open>"no removable anti-aliasing setting found"\<close>
  | MsgRemoved              \<comment> \<open>"anti-aliasing setting removed, file restored"\<close>

definition target :: string where
  "target = ''sg.AntiAliasingQuality=0''"

definition newline :: string where
  "newline = [CHR 0x0A]"

text \<open>
  The \<^verbatim>\<open>try\<close> around \<^verbatim>\<open>read_text\<close>, the same in both operations: a
  \<^verbatim>\<open>UnicodeDecodeError\<close> reads again with \<^verbatim>\<open>errors="ignore"\<close>; every other error
  (an \<^verbatim>\<open>OSError\<close>) is the failure the caller reports. \<open>ini_faults\<close> holds what the
  system does to the two reads and to the write of one call.
\<close>

record ini_faults =
  read_fault :: "exn option"
  reread_fault :: "exn option"
  write_fault :: "exn option"

definition read_config :: "ini_faults \<Rightarrow> disk \<Rightarrow> path \<Rightarrow> exn + string" where
  "read_config io d config_file =
     (case read_text (read_fault io) d config_file False of
        Inr s \<Rightarrow> Inr s
      | Inl e \<Rightarrow>
          if e = UnicodeDecodeError then read_text (reread_fault io) d config_file True
          else Inl e)"

subsection \<open>apply_anti_aliasing_setting\<close>

text \<open>
  The \<^verbatim>\<open>for idx, line in enumerate(lines)\<close> loop. It returns from the function
  (\<open>ScanReturn\<close>), breaks with the line at \<open>idx\<close> replaced (\<open>ScanBreak\<close>), or ends
  with \<^verbatim>\<open>section_found\<close> and \<^verbatim>\<open>insertion_index\<close> (\<open>ScanEnd\<close>).
\<close>

datatype scan = ScanReturn | ScanBreak "string list" | ScanEnd bool "nat option"

definition is_header :: "string \<Rightarrow> bool" where
  "is_header stripped = (startswith stripped ''['' \<and> endswith stripped '']'')"

fun scan_lines :: "string list \<Rightarrow> nat \<Rightarrow> bool \<Rightarrow> bool \<Rightarrow> nat option \<Rightarrow> string list \<Rightarrow> scan" where
  "scan_lines lines idx in_section section_found insertion_index [] =
     ScanEnd section_found insertion_index"
| "scan_lines lines idx in_section section_found insertion_index (line # rest) =
     (let stripped = strip line
      in if is_header stripped then
           (let insertion_index' =
                  (if in_section \<and> insertion_index = None then Some idx else insertion_index);
                in_section' = (lower stripped = ''[scalabilitygroups]'');
                section_found' = (if in_section' then True else section_found)
            in scan_lines lines (idx + 1) in_section' section_found' insertion_index' rest)
         else if in_section \<and> startswith (lower stripped) ''sg.antialiasingquality'' then
           (if stripped = target then ScanReturn
            else ScanBreak (lines[idx := target]))
         else scan_lines lines (idx + 1) in_section section_found insertion_index rest)"

text \<open>The three \<^verbatim>\<open>if\<close> statements after the loop, on (lines, message, updated).\<close>

definition add_to_section ::
  "bool \<Rightarrow> nat option \<Rightarrow> string list \<times> ini_msg \<times> bool \<Rightarrow> string list \<times> ini_msg \<times> bool" where
  "add_to_section section_found insertion_index st =
     (case st of (lines, message, updated) \<Rightarrow>
        if \<not> updated \<and> section_found then
          ((case insertion_index of
              None \<Rightarrow> lines @ [target]
            | Some i \<Rightarrow> insert_at i target lines),
           MsgAddedToSection, True)
        else st)"

definition add_section ::
  "bool \<Rightarrow> string list \<times> ini_msg \<times> bool \<Rightarrow> string list \<times> ini_msg \<times> bool" where
  "add_section section_found st =
     (case st of (lines, message, updated) \<Rightarrow>
        if \<not> updated \<and> \<not> section_found then
          ((if lines \<noteq> [] \<and> strip (last lines) \<noteq> [] then lines @ [[]] else lines)
             @ [''[ScalabilityGroups]'', target],
           MsgAddedSection, True)
        else st)"

definition finish_content :: "string list \<Rightarrow> string" where
  "finish_content lines =
     (let new_content = join newline lines
      in if \<not> endswith new_content newline then new_content @ newline else new_content)"

definition apply_anti_aliasing_setting ::
  "ini_faults \<Rightarrow> disk \<Rightarrow> path \<Rightarrow> (ini_msg \<times> bool) \<times> disk" where
  "apply_anti_aliasing_setting io d config_file =
     (if \<not> exists d config_file then ((MsgConfigMissing, False), d)
      else
        (case read_config io d config_file of
           Inl exc \<Rightarrow> ((MsgReadFailed exc, False), d)
         | Inr content \<Rightarrow>
             if sublist target content then ((MsgAlreadyPresent, False), d)
             else
               (let lines = splitlines content
                in (case scan_lines lines 0 False False None lines of
                      ScanReturn \<Rightarrow> ((MsgAlreadyPresent, False), d)
                    | ScanBreak lines' \<Rightarrow>
                        (case write_text (write_fault io) d config_file (finish_content lines') of
                           Inl exc \<Rightarrow> ((MsgWriteFailed exc, False), d)
                         | Inr d' \<Rightarrow> ((MsgUpdatedExisting, True), d'))
                    | ScanEnd section_found insertion_index \<Rightarrow>
                        (case add_section section_found
                                (add_to_section section_found insertion_index
                                   (lines, MsgEmpty, False)) of
                           (lines', message, updated) \<Rightarrow>
                             if \<not> updated then ((MsgNothingChanged, False), d)
                             else
                               (case write_text (write_fault io) d config_file (finish_content lines') of
                                  Inl exc \<Rightarrow> ((MsgWriteFailed exc, False), d)
                                | Inr d' \<Rightarrow> ((message, True), d')))))))"

subsection \<open>remove_anti_aliasing_setting\<close>











section \<open>The Tk event loop\<close>

text \<open>
  What \<^verbatim>\<open>root.after\<close> can be given in app.py. A timer is the identifier \<^verbatim>\<open>after\<close>
  returned (Tk's \<^verbatim>\<open>after#n\<close>, here \<open>n\<close>: a string that is never empty, so that it is
  true wherever the source tests it), the time in milliseconds at which it is due and the
  callback.
\<close>

datatype callback =
    CbLogMessage log_msg
  | CbOnGameStarted
  | CbOnGameStopped
  | CbHandleMonitorError exn
  | CbRestoreBackupToGame
  | CbShowSponsorPopup

record timer =
  timer_id :: nat
  due :: int
  action :: callback

record tk =
  clock :: int
  next_id :: nat
  timers :: "timer list"
  destroyed :: bool

definition after :: "int \<Rightarrow> callback \<Rightarrow> tk \<Rightarrow> nat \<times> tk" where
  "after ms cb r =
     (next_id r,
      r\<lparr>next_id := next_id r + 1,
        timers := timers r @ [\<lparr>timer_id = next_id r, due = clock r + ms, action = cb\<rparr>]\<rparr>)"

text \<open>Taking the timer \<open>j\<close> out of the queue.\<close>

definition remove_timer :: "nat \<Rightarrow> tk \<Rightarrow> tk" where
  "remove_timer j r = r\<lparr>timers := filter (\<lambda>t. timer_id t \<noteq> j) (timers r)\<rparr>"

text \<open>\<^verbatim>\<open>after_cancel(id)\<close> raises \<^verbatim>\<open>ValueError\<close> when the identifier is \<^verbatim>\<open>None\<close>.\<close>

definition after_cancel :: "nat option \<Rightarrow> tk \<Rightarrow> exn + tk" where
  "after_cancel job r =
     (case job of
        None \<Rightarrow> Inl ValueError
      | Some j \<Rightarrow> Inr (remove_timer j r))"

definition restore_jobs :: "tk \<Rightarrow> nat list" where
  "restore_jobs r = map timer_id (filter (\<lambda>t. action t = CbRestoreBackupToGame) (timers r))"

section \<open>DeltaForceConfigApp (app.py)\<close>

datatype dialog =
    InfoAlreadyMonitoring
  | WarnSelectConfigFirst
  | WarnNoBackup
  | ErrorNoGameExe
  | ErrorRestoreFailed exn
  | ErrorMonitor exn

datatype notice =
    NoticeGameStarted int
  | NoticeGameClosed
  | NoticeRestored

text \<open>A monitor thread: the \<^verbatim>\<open>ConfigMonitor\<close>, the local \<^verbatim>\<open>last_running\<close> of its
  \<^verbatim>\<open>run\<close>, and whether \<^verbatim>\<open>run\<close> has not left yet.\<close>

record thread = config_monitor +
  last_running :: bool
  alive :: bool

text \<open>
  The application: the fields of \<^verbatim>\<open>DeltaForceConfigApp\<close> that the monitoring step
  reads and writes, the log widget, the message boxes shown and the notifications sent,
  the thread objects (\<open>monitor_thread\<close> refers to one by its index) and the disk.
  \<open>restore_delay_var\<close> is \<open>None\<close> when \<^verbatim>\<open>restore_delay_var.get()\<close> raises
  \<^verbatim>\<open>TclError\<close>. Widget states and settings.json are left out.
\<close>

record app =
  root :: tk
  restore_delay_var :: "int option"
  selected_config_path :: "path option"
  monitor_thread :: "nat option"
  threads :: "thread list"
  pending_restore_job :: "nat option"
  game_currently_running :: bool
  closing :: bool
  log_widget :: "log_msg list"
  dialogs :: "dialog list"
  notifications :: "notice list"
  disk :: disk

definition BACKUP_FILE :: path where
  "BACKUP_FILE = ''ini/yuan/Engine.ini''"

definition DEFAULT_RESTORE_DELAY_SECONDS :: int where
  "DEFAULT_RESTORE_DELAY_SECONDS = 8"

definition CHECK_INTERVAL_SECONDS :: int where
  "CHECK_INTERVAL_SECONDS = 3"

text \<open>
  The state \<^verbatim>\<open>__init__\<close> builds: \<open>saved_delay\<close> is the integer
  \<^verbatim>\<open>restore_delay_seconds\<close> of the settings when there is one, \<open>saved_path\<close> their
  \<^verbatim>\<open>last_config_path\<close>. The log starts empty: the lines written while the window is
  built are left out.
\<close>

definition DeltaForceConfigApp :: "int option \<Rightarrow> path option \<Rightarrow> disk \<Rightarrow> app" where
  "DeltaForceConfigApp saved_delay saved_path d =
     \<lparr>root = snd (after 300 CbShowSponsorPopup
                   \<lparr>clock = 0, next_id = 0, timers = [], destroyed = False\<rparr>),
      restore_delay_var =
        (case saved_delay of
           None \<Rightarrow> Some DEFAULT_RESTORE_DELAY_SECONDS
         | Some n \<Rightarrow> Some (max 0 (min 120 n))),
      selected_config_path =
        (case saved_path of
           None \<Rightarrow> None
         | Some p \<Rightarrow> if exists d p then Some p else None),
      monitor_thread = None,
      threads = [],
      pending_restore_job = None,
      game_currently_running = False,
      closing = False,
      log_widget = [],
      dialogs = [],
      notifications = [],
      disk = d\<rparr>"

definition log_message :: "log_msg \<Rightarrow> app \<Rightarrow> app" where
  "log_message m a = a\<lparr>log_widget := log_widget a @ [m]\<rparr>"

definition showbox :: "dialog \<Rightarrow> app \<Rightarrow> app" where
  "showbox b a = a\<lparr>dialogs := dialogs a @ [b]\<rparr>"

definition send_notification :: "notice \<Rightarrow> app \<Rightarrow> app" where
  "send_notification n a = a\<lparr>notifications := notifications a @ [n]\<rparr>"

definition get_restore_delay_seconds :: "app \<Rightarrow> int \<times> app" where
  "get_restore_delay_seconds a =
     (case restore_delay_var a of
        None \<Rightarrow> (max 0 (min 120 DEFAULT_RESTORE_DELAY_SECONDS), a)
      | Some raw_value \<Rightarrow>
          (let v = max 0 (min 120 raw_value)
           in (v, if v \<noteq> raw_value then a\<lparr>restore_delay_var := Some v\<rparr> else a)))"

definition persist_settings :: "app \<Rightarrow> app" where
  "persist_settings a = snd (get_restore_delay_seconds a)"

text \<open>
  \<^verbatim>\<open>_on_config_selected\<close>: \<open>choice\<close> is the path the list box has selected, if any.
\<close>

definition on_config_selected :: "path option \<Rightarrow> app \<Rightarrow> app" where
  "on_config_selected choice a =
     (case choice of
        None \<Rightarrow> a\<lparr>selected_config_path := None\<rparr>
      | Some p \<Rightarrow>
          persist_settings (log_message (LogConfigSelected p) (a\<lparr>selected_config_path := Some p\<rparr>)))"

subsection \<open>Starting and stopping\<close>

definition is_alive :: "app \<Rightarrow> nat \<Rightarrow> bool" where
  "is_alive a i = (i < length (threads a) \<and> alive (threads a ! i))"

text \<open>\<open>game_exe\<close> is what \<^verbatim>\<open>find_game_executable(search_roots)\<close> finds, with its stem.\<close>

definition start_monitoring :: "(path \<times> string) option \<Rightarrow> app \<Rightarrow> app" where
  "start_monitoring game_exe a =
     (if (case monitor_thread a of None \<Rightarrow> False | Some i \<Rightarrow> is_alive a i)
        then showbox InfoAlreadyMonitoring a
      else if selected_config_path a = None then showbox WarnSelectConfigFirst a
      else if \<not> exists (disk a) BACKUP_FILE then showbox WarnNoBackup a
      else (case game_exe of
              None \<Rightarrow> log_message LogNoGameExe (showbox ErrorNoGameExe a)
            | Some (exe, stem) \<Rightarrow>
                (let m = ConfigMonitor exe stem CHECK_INTERVAL_SECONDS;
                     t = config_monitor.extend m
                           (thread.fields False True);
                     a1 = a\<lparr>monitor_thread := Some (length (threads a)),
                            threads := threads a @ [t]\<rparr>
                 in persist_settings (log_message (LogMonitorStarted exe) a1))))"

definition stop_monitoring :: "app \<Rightarrow> exn + app" where
  "stop_monitoring a =
     (case monitor_thread a of
        None \<Rightarrow> Inr a
      | Some i \<Rightarrow>
          (let a1 = a\<lparr>threads := (threads a)[i := stop (threads a ! i)],
                       monitor_thread := None\<rparr>
           in (case (if pending_restore_job a1 \<noteq> None
                     then after_cancel (pending_restore_job a1) (root a1)
                     else Inr (root a1)) of
                 Inl e \<Rightarrow> Inl e
               | Inr r \<Rightarrow>
                   Inr (log_message LogMonitorStopped
                          (a1\<lparr>root := r, pending_restore_job := None,
                              game_currently_running := False\<rparr>)))))"

subsection \<open>The monitor's callbacks\<close>

text \<open>The four thread-safe callbacks: each is \<^verbatim>\<open>root.after(0, ...)\<close>.\<close>

definition post :: "monitor_call \<Rightarrow> app \<Rightarrow> app" where
  "post c a =
     a\<lparr>root := snd (after 0
                      (case c of
                         OnLog m \<Rightarrow> CbLogMessage m
                       | OnGameStarted \<Rightarrow> CbOnGameStarted
                       | OnGameStopped \<Rightarrow> CbOnGameStopped
                       | OnError e \<Rightarrow> CbHandleMonitorError e)
                      (root a))\<rparr>"

definition on_game_started :: "app \<Rightarrow> exn + app" where
  "on_game_started a =
     (case get_restore_delay_seconds (a\<lparr>game_currently_running := True\<rparr>) of
        (delay_seconds, a1) \<Rightarrow>
          (let a2 = send_notification (NoticeGameStarted delay_seconds)
                      (log_message
                         (if delay_seconds \<noteq> 0 then LogStartedDelay delay_seconds
                          else LogStartedImmediate) a1)
           in (case (if pending_restore_job a2 \<noteq> None
                     then after_cancel (pending_restore_job a2) (root a2)
                     else Inr (root a2)) of
                 Inl e \<Rightarrow> Inl e
               | Inr r \<Rightarrow>
                   (case after (max 0 delay_seconds * 1000) CbRestoreBackupToGame r of
                      (job, r') \<Rightarrow> Inr (a2\<lparr>root := r', pending_restore_job := Some job\<rparr>)))))"

definition on_game_stopped :: "app \<Rightarrow> exn + app" where
  "on_game_stopped a =
     (let a1 = a\<lparr>game_currently_running := False\<rparr>
      in (case (if pending_restore_job a1 \<noteq> None
                then after_cancel (pending_restore_job a1) (root a1)
                else Inr (root a1)) of
            Inl e \<Rightarrow> Inl e
          | Inr r \<Rightarrow>
              Inr (send_notification NoticeGameClosed
                     (log_message LogGameExited
                        (if pending_restore_job a1 \<noteq> None
                         then a1\<lparr>root := r, pending_restore_job := None\<rparr>
                         else a1)))))"

definition handle_monitor_error :: "exn \<Rightarrow> app \<Rightarrow> exn + app" where
  "handle_monitor_error e a =
     stop_monitoring (showbox (ErrorMonitor e) (log_message (LogMonitorError e) a))"

subsection \<open>The restore\<close>

text \<open>What the system does to the three steps of one restore.\<close>

record restore_faults =
  writable_fault :: bool
  copy_fault :: "exn option"
  read_only_fault :: bool

definition restore_backup_to_game :: "restore_faults \<Rightarrow> app \<Rightarrow> app" where
  "restore_backup_to_game fl a =
     (let a1 = a\<lparr>pending_restore_job := None\<rparr>
      in if \<not> game_currently_running a1 then log_message LogSkipRestore a1
         else
           (case selected_config_path a1 of
              None \<Rightarrow> log_message LogConfigNotFound a1
            | Some config \<Rightarrow>
                if \<not> exists (disk a1) config then log_message LogConfigNotFound a1
                else if \<not> exists (disk a1) BACKUP_FILE then log_message LogBackupMissing a1
                else
                  (let d1 = ensure_writable (writable_fault fl) (disk a1) config
                   in (case copy2 (copy_fault fl) d1 BACKUP_FILE config of
                         Inl exc \<Rightarrow>
                           showbox (ErrorRestoreFailed exc)
                             (log_message (LogRestoreFailed exc) (a1\<lparr>disk := d1\<rparr>))
                       | Inr d2 \<Rightarrow>
                           send_notification NoticeRestored
                             (log_message LogRestoreDone
                                (a1\<lparr>disk := ensure_read_only (read_only_fault fl) d2 config\<rparr>))))))"

definition on_close :: "app \<Rightarrow> exn + app" where
  "on_close a =
     (if closing a then Inr a
      else (case stop_monitoring (persist_settings (a\<lparr>closing := True\<rparr>)) of
              Inl e \<Rightarrow> Inl e
            | Inr a1 \<Rightarrow> Inr (a1\<lparr>root := (root a1)\<lparr>timers := [], destroyed := True\<rparr>\<rparr>)))"

subsection \<open>The application as a transition system\<close>

text \<open>
  One iteration of the loop of thread \<open>i\<close>: a thread whose stop event is set leaves
  \<^verbatim>\<open>run\<close> without probing; otherwise the body runs on the probe's result, and each
  call on the callbacks is posted to the Tk queue.
\<close>

definition thread_poll :: "nat \<Rightarrow> exn + bool \<Rightarrow> app \<Rightarrow> app" where
  "thread_poll i outcome a =
     (if \<not> is_alive a i then a
      else
        (let t = threads a ! i
         in if stop_event t then a\<lparr>threads := (threads a)[i := t\<lparr>alive := False\<rparr>]\<rparr>
            else
              (case run_loop (last_running t) [(outcome, False)] of
                 (calls, ex) \<Rightarrow>
                   (fold post calls a)
                     \<lparr>threads :=
                        (threads a)[i := (case ex of
                                            Polling b \<Rightarrow> t\<lparr>last_running := b\<rparr>
                                          | Returned \<Rightarrow> t\<lparr>alive := False\<rparr>
                                          | Raised e \<Rightarrow> t\<lparr>alive := False\<rparr>)]\<rparr>)))"

definition run_callback :: "restore_faults \<Rightarrow> callback \<Rightarrow> app \<Rightarrow> exn + app" where
  "run_callback fl cb a =
     (case cb of
        CbLogMessage m \<Rightarrow> Inr (log_message m a)
      | CbOnGameStarted \<Rightarrow> on_game_started a
      | CbOnGameStopped \<Rightarrow> on_game_stopped a
      | CbHandleMonitorError e \<Rightarrow> handle_monitor_error e a
      | CbRestoreBackupToGame \<Rightarrow> Inr (restore_backup_to_game fl a)
      | CbShowSponsorPopup \<Rightarrow> Inr a)"

text \<open>
  The main loop runs timer \<open>j\<close> when it is in the queue and due: Tk takes the timer out
  of the queue and calls the callback.
\<close>

definition dispatch :: "nat \<Rightarrow> restore_faults \<Rightarrow> app \<Rightarrow> exn + app" where
  "dispatch j fl a =
     (case find (\<lambda>t. timer_id t = j) (timers (root a)) of
        None \<Rightarrow> Inr a
      | Some t \<Rightarrow>
          if clock (root a) < due t then Inr a
          else run_callback fl (action t) (a\<lparr>root := remove_timer j (root a)\<rparr>))"

definition time_passes :: "nat \<Rightarrow> app \<Rightarrow> app" where
  "time_passes ms a = a\<lparr>root := (root a)\<lparr>clock := clock (root a) + int ms\<rparr>\<rparr>"

text \<open>
  What can happen to the application: the user starts or stops the monitoring, edits the
  delay, selects a configuration or closes the window; the disk changes (by the backup and
  preset steps, by the game or by anything else); time passes; the main loop runs a timer;
  a monitor thread goes once through its loop. Once the root is destroyed nothing happens.
\<close>

datatype event =
    ClickStart "(path \<times> string) option"
  | ClickStop
  | EditDelay "int option"
  | SelectConfig "path option"
  | Close
  | DiskChanges disk
  | TimePasses nat
  | Dispatch nat restore_faults
  | ThreadPoll nat "exn + bool"

definition step :: "event \<Rightarrow> app \<Rightarrow> exn + app" where
  "step ev a =
     (if destroyed (root a) then Inr a
      else (case ev of
              ClickStart game_exe \<Rightarrow> Inr (start_monitoring game_exe a)
            | ClickStop \<Rightarrow> stop_monitoring a
            | EditDelay v \<Rightarrow> Inr (a\<lparr>restore_delay_var := v\<rparr>)
            | SelectConfig choice \<Rightarrow> Inr (on_config_selected choice a)
            | Close \<Rightarrow> on_close a
            | DiskChanges d \<Rightarrow> Inr (a\<lparr>disk := d\<rparr>)
            | TimePasses ms \<Rightarrow> Inr (time_passes ms a)
            | Dispatch j fl \<Rightarrow> dispatch j fl a
            | ThreadPoll i outcome \<Rightarrow> Inr (thread_poll i outcome a)))"

fun exec :: "event list \<Rightarrow> app \<Rightarrow> exn + app" where
  "exec [] a = Inr a"
| "exec (ev # evs) a = (case step ev a of Inl e \<Rightarrow> Inl e | Inr a' \<Rightarrow> exec evs a')"

text \<open>
  Every identifier in the queue is one \<^verbatim>\<open>after\<close> has already given out, and no two
  timers share one.
\<close>

definition ids_bounded :: "tk \<Rightarrow> bool" where
  "ids_bounded r =
     (list_all (\<lambda>t. timer_id t < next_id r) (timers r) \<and> distinct (map timer_id (timers r)))"

text \<open>
  The single slot: the queue holds no restore timer, or it holds one and
  \<open>pending_restore_job\<close> is its identifier.
\<close>

definition pending_invariant :: "app \<Rightarrow> bool" where
  "pending_invariant a =
     (ids_bounded (root a) \<and>
      (restore_jobs (root a) = [] \<or>
       map Some (restore_jobs (root a)) = [pending_restore_job a]))"

text \<open>The root's queue once \<^verbatim>\<open>_on_game_started\<close> has replaced the pending handle.\<close>

definition started_root :: "app \<Rightarrow> tk" where
  "started_root a =
     snd (after (max 0 (fst (get_restore_delay_seconds (a\<lparr>game_currently_running := True\<rparr>))) * 1000)
            CbRestoreBackupToGame
            (case pending_restore_job a of None \<Rightarrow> root a | Some j \<Rightarrow> remove_timer j (root a)))"

text \<open>The root's queue once the pending handle, if any, is cancelled.\<close>

definition cancelled_root :: "app \<Rightarrow> tk" where
  "cancelled_root a =
     (case pending_restore_job a of None \<Rightarrow> root a | Some j \<Rightarrow> remove_timer j (root a))"

section \<open>What the specification expects of the monitor\<close>

text \<open>A tick whose probe answers \<open>b\<close> and whose wait sees no stop.\<close>

definition probe_tick :: "bool \<Rightarrow> tick" where
  "probe_tick b = (Inr b, False)"

text \<open>The number of false-to-true and of true-to-false transitions of a sequence of
  probe results that follows the state \<open>prev\<close>.\<close>

fun rising_edges :: "bool \<Rightarrow> bool list \<Rightarrow> nat" where
  "rising_edges prev [] = 0"
| "rising_edges prev (cur # rest) = (if \<not> prev \<and> cur then 1 else 0) + rising_edges cur rest"

fun falling_edges :: "bool \<Rightarrow> bool list \<Rightarrow> nat" where
  "falling_edges prev [] = 0"
| "falling_edges prev (cur # rest) = (if prev \<and> \<not> cur then 1 else 0) + falling_edges cur rest"

text \<open>The callbacks the specification expects, tick by tick: one on each edge, none
  when the probe's result repeats.\<close>

fun expected_calls :: "bool \<Rightarrow> bool list \<Rightarrow> monitor_call list" where
  "expected_calls prev [] = []"
| "expected_calls prev (cur # rest) =
     (if \<not> prev \<and> cur then [OnGameStarted]
      else if prev \<and> \<not> cur then [OnGameStopped] else []) @ expected_calls cur rest"

definition is_edge_call :: "monitor_call \<Rightarrow> bool" where
  "is_edge_call c = (c = OnGameStarted \<or> c = OnGameStopped)"

definition is_error_call :: "monitor_call \<Rightarrow> bool" where
  "is_error_call c = (case c of OnError e \<Rightarrow> True | _ \<Rightarrow> False)"

definition gm_probe :: "game_monitor \<Rightarrow> snapshot \<Rightarrow> bool" where
  "gm_probe g snap = snd (gm_is_game_running g snap)"

fun gm_expected :: "bool \<Rightarrow> bool list \<Rightarrow> gm_output list" where
  "gm_expected prev [] = []"
| "gm_expected prev (cur # rest) =
     (if \<not> prev \<and> cur then [NotifyGameStarted]
      else if prev \<and> \<not> cur then [NotifyGameClosed] else []) @ gm_expected cur rest"

definition is_notification :: "gm_output \<Rightarrow> bool" where
  "is_notification out = (out = NotifyGameStarted \<or> out = NotifyGameClosed)"

section \<open>Concrete inputs\<close>

definition example_exe :: path where
  "example_exe = ''C:/WeGameApps/DeltaForce/DeltaForceClient.exe''"

definition example_stem :: string where
  "example_stem = ''DeltaForceClient''"

definition game_process :: process where
  "game_process = \<lparr>info_name = Some ''DeltaForceClient.exe'', info_exe = None\<rparr>"

definition other_process :: process where
  "other_process = \<lparr>info_name = Some ''explorer.exe'', info_exe = Some (Inl AccessDenied)\<rparr>"

definition failing_snapshot :: snapshot where
  "failing_snapshot = [Inr other_process, Inl OSError]"

definition example_config :: path where
  "example_config = ''C:/Game/Saved/Config/GameUserSettings.ini''"

definition no_ini_faults :: ini_faults where
  "no_ini_faults = \<lparr>read_fault = None, reread_fault = None, write_fault = None\<rparr>"

definition write_refused :: ini_faults where
  "write_refused = \<lparr>read_fault = None, reread_fault = None, write_fault = Some PermissionError\<rparr>"

definition patched_text :: string where
  "patched_text = ''[ScalabilityGroups]'' @ newline @ ''sg.AntiAliasingQuality=0'' @ newline"

definition plain_text :: string where
  "plain_text = ''[Display]'' @ newline @ ''x=1'' @ newline"

definition disk_with :: "string \<Rightarrow> disk" where
  "disk_with s = [example_config \<mapsto> \<lparr>data = Text s, st_mode = 33206\<rparr>]"

definition no_restore_faults :: restore_faults where
  "no_restore_faults = \<lparr>writable_fault = False, copy_fault = None, read_only_fault = False\<rparr>"



definition backup_rec :: file_rec where
  "backup_rec = \<lparr>data = Text (''[SystemSettings]'' @ newline @ ''r.Shadow=1'' @ newline), st_mode = 33206\<rparr>"

definition live_rec :: file_rec where
  "live_rec = \<lparr>data = Undecodable ''preset'', st_mode = 33060\<rparr>"

definition example_disk :: disk where
  "example_disk = [example_config \<mapsto> live_rec, BACKUP_FILE \<mapsto> backup_rec]"

definition example_app :: app where
  "example_app = DeltaForceConfigApp (Some 0) (Some example_config) example_disk"

definition monitoring_app :: app where
  "monitoring_app = start_monitoring (Some (example_exe, example_stem)) example_app"

definition running_app :: app where
  "running_app = example_app\<lparr>game_currently_running := True\<rparr>"

definition delayed_app :: app where
  "delayed_app = DeltaForceConfigApp (Some 8) (Some example_config) example_disk"


definition repeated_stop_trace :: "event list" where
  "repeated_stop_trace =
     [ClickStart (Some (example_exe, example_stem)),
      ThreadPoll 0 (Inr True),
      ClickStop,
      Dispatch 1 no_restore_faults,
      Dispatch 2 no_restore_faults,
      ClickStop,
      ClickStop]"


definition pending_after :: "exn + app \<Rightarrow> (nat option \<times> nat list \<times> nat option) option" where
  "pending_after r =
     (case r of
        Inl e \<Rightarrow> None
      | Inr a \<Rightarrow> Some (pending_restore_job a, restore_jobs (root a), monitor_thread a))"

section \<open>Edge detection\<close>

lemma run_loop_probe_tick:
  "run_loop prev (probe_tick b # ts) = (edge_calls prev b @ fst (run_loop b ts), snd (run_loop b ts))"
  by (simp add: probe_tick_def case_prod_beta)

lemma run_loop_started: "count_list (fst (run_loop prev (map probe_tick ps))) OnGameStarted = rising_edges prev ps"
  by (induction ps arbitrary: prev) (simp_all add: run_loop_probe_tick edge_calls_def)

lemma run_loop_stopped: "count_list (fst (run_loop prev (map probe_tick ps))) OnGameStopped = falling_edges prev ps"
  by (induction ps arbitrary: prev) (simp_all add: run_loop_probe_tick edge_calls_def)

lemma run_loop_expected: "filter is_edge_call (fst (run_loop prev (map probe_tick ps))) = expected_calls prev ps"
  by (induction ps arbitrary: prev) (simp_all add: run_loop_probe_tick edge_calls_def is_edge_call_def)

lemma run_loop_repeat: "fst (run_loop b (replicate n (probe_tick b))) = []"
  by (induction n) (simp_all add: run_loop_probe_tick edge_calls_def)

lemma run_loop_stop:
  "run_loop prev (map probe_tick ps @ [(Inr c, True)])
     = (fst (run_loop prev (map probe_tick (ps @ [c]))), Returned)"
  by (induction ps arbitrary: prev) (simp_all add: run_loop_probe_tick)

lemma gm_probe_cong: "game_stem g' = game_stem g \<Longrightarrow> game_path g' = game_path g \<Longrightarrow> gm_probe g' = gm_probe g"
  by (auto simp: gm_probe_def gm_is_game_running_def fun_eq_iff)

lemma monitor_loop_notifications:
  "monitoring g \<Longrightarrow>
   filter is_notification (fst (monitor_loop g (map (\<lambda>s. (s, True)) snaps)))
     = gm_expected (is_running g) (map (gm_probe g) snaps)"
proof (induction snaps arbitrary: g)
  case Nil
  then show ?case by simp
next
  case (Cons s snaps)
  obtain printed b where p: "gm_is_game_running g s = (printed, b)" by (cases "gm_is_game_running g s")
  have np: "filter is_notification printed = []"
    using p by (auto simp: gm_is_game_running_def is_notification_def split: sum.splits)
  obtain sent g' where e: "gm_edge g b = (sent, g')" by (cases "gm_edge g b")
  have g': "game_stem g' = game_stem g" "game_path g' = game_path g" "monitoring g'" "is_running g' = b"
    using e Cons.prems by (auto simp: gm_edge_def split: if_splits)
  have sent: "filter is_notification sent = (if \<not> is_running g \<and> b then [NotifyGameStarted]
      else if is_running g \<and> \<not> b then [NotifyGameClosed] else [])"
    using e by (auto simp: gm_edge_def is_notification_def split: if_splits)
  let ?g = "g'\<lparr>monitoring := True\<rparr>"
  have ih: "filter is_notification (fst (monitor_loop ?g (map (\<lambda>s. (s, True)) snaps)))
     = gm_expected b (map (gm_probe g) snaps)"
    using Cons.IH[of ?g] g' gm_probe_cong[of ?g g] by simp
  have b: "gm_probe g s = b" using p by (simp add: gm_probe_def)
  show ?case using Cons.prems p e np sent ih b
    by (simp add: case_prod_beta)
qed

lemma gm_expected_started: "count_list (gm_expected prev ps) NotifyGameStarted = rising_edges prev ps"
  by (induction ps arbitrary: prev) simp_all

lemma gm_expected_closed: "count_list (gm_expected prev ps) NotifyGameClosed = falling_edges prev ps"
  by (induction ps arbitrary: prev) simp_all

text \<open>
  Claim C1. Starting from the initial absent state, for every sequence of probe results
  fed to the poll loop one per tick, the started callback fires exactly once for each
  false-to-true transition and the stopped callback exactly once for each true-to-false
  transition, in the order of the transitions, and no callback fires on a tick whose probe
  result equals the previous one; a stop seen after the last tick changes none of this.
  The same holds of the two notifications of the stand-alone \<^verbatim>\<open>GameMonitor\<close>.
\<close>

theorem edge_detection_exact:
  "count_list (fst (run (ConfigMonitor p stem n) (map probe_tick ps))) OnGameStarted = rising_edges False ps
   \<and> count_list (fst (run (ConfigMonitor p stem n) (map probe_tick ps))) OnGameStopped = falling_edges False ps
   \<and> filter is_edge_call (fst (run (ConfigMonitor p stem n) (map probe_tick ps))) = expected_calls False ps
   \<and> fst (run_loop b (replicate k (probe_tick b))) = []
   \<and> run (ConfigMonitor p stem n) (map probe_tick ps @ [(Inr c, True)])
      = (fst (run (ConfigMonitor p stem n) (map probe_tick (ps @ [c]))), Returned)
   \<and> filter is_notification
        (fst (monitor_loop (gm_start_monitoring (GameMonitor p stem n)) (map (\<lambda>s. (s, True)) snaps)))
      = gm_expected False (map (gm_probe (GameMonitor p stem n)) snaps)
   \<and> count_list (gm_expected False (map (gm_probe (GameMonitor p stem n)) snaps)) NotifyGameStarted
      = rising_edges False (map (gm_probe (GameMonitor p stem n)) snaps)
   \<and> count_list (gm_expected False (map (gm_probe (GameMonitor p stem n)) snaps)) NotifyGameClosed
      = falling_edges False (map (gm_probe (GameMonitor p stem n)) snaps)"
proof -
  let ?g = "gm_start_monitoring (GameMonitor p stem n)"
  have r: "run (ConfigMonitor p stem n) ts = run_loop False ts" for ts
    by (simp add: run_def ConfigMonitor_def)
  have g: "monitoring ?g" "is_running ?g = False" "gm_probe ?g = gm_probe (GameMonitor p stem n)"
    by (simp_all add: gm_start_monitoring_def GameMonitor_def gm_probe_cong)
  show ?thesis
    using monitor_loop_notifications[OF g(1), of snaps] g
    by (simp add: r run_loop_started run_loop_stopped run_loop_expected run_loop_repeat
        gm_expected_started gm_expected_closed run_loop_stop del: map_append)
qed

theorem edge_detection_exact_witness:
  "count_list (fst (run (ConfigMonitor example_exe example_stem 3)
       (map probe_tick [False, True, True, False, False, True]))) OnGameStarted = 2
   \<and> count_list (fst (run (ConfigMonitor example_exe example_stem 3)
       (map probe_tick [False, True, True, False, False, True]))) OnGameStopped = 1
   \<and> filter is_edge_call (fst (run (ConfigMonitor example_exe example_stem 3)
       (map probe_tick [False, True, True, False, False, True])))
      = [OnGameStarted, OnGameStopped, OnGameStarted]"
  using edge_detection_exact[of example_exe example_stem 3 "[False, True, True, False, False, True]" True 0
      False "[]"]
  by simp

section \<open>Failures while polling\<close>

lemma run_loop_fail:
  "run_loop prev (map probe_tick ps @ (Inl e, st) # rest)
     = (fst (run_loop prev (map probe_tick ps)) @ [OnError e], Raised e)"
  by (induction ps arbitrary: prev) (simp_all add: run_loop_probe_tick)

lemma run_loop_no_error: "filter is_error_call (fst (run_loop prev (map probe_tick ps))) = []"
  by (induction ps arbitrary: prev) (simp_all add: run_loop_probe_tick edge_calls_def is_error_call_def)

lemma monitor_loop_step:
  "monitoring g \<Longrightarrow>
   monitor_loop g ((s, st) # ticks) =
     (fst (gm_is_game_running g s) @ fst (gm_edge g (snd (gm_is_game_running g s)))
        @ fst (monitor_loop (snd (gm_edge g (snd (gm_is_game_running g s)))\<lparr>monitoring := st\<rparr>) ticks),
      snd (monitor_loop (snd (gm_edge g (snd (gm_is_game_running g s)))\<lparr>monitoring := st\<rparr>) ticks))"
  by (simp add: case_prod_beta)

text \<open>
  Claim C7, as amended. In \<^verbatim>\<open>ConfigMonitor.run\<close> a probe that raises makes the loop
  call \<^verbatim>\<open>on_error\<close> once and leave with the exception: no later tick is polled. The
  two psutil errors raised while one process is looked at are not such a failure: the
  probe goes on with the next process. The stand-alone \<^verbatim>\<open>GameMonitor\<close> has no error
  callback: a probe that raises is printed and taken as "not running", and the loop goes
  on with the next tick.
\<close>

theorem monitor_fail_fast:
  "run (ConfigMonitor p stem n) (map probe_tick ps @ (Inl e, st) # rest)
     = (fst (run (ConfigMonitor p stem n) (map probe_tick ps)) @ [OnError e], Raised e)
   \<and> filter is_error_call (fst (run (ConfigMonitor p stem n) (map probe_tick ps @ (Inl e, st) # rest)))
     = [OnError e]
   \<and> (info_exe pr = Some (Inl e') \<and> (e' = NoSuchProcess \<or> e' = AccessDenied)
        \<and> \<not> name_matches process_stem pr \<longrightarrow>
        is_process_running process_stem exe (Inr pr # snap) = is_process_running process_stem exe snap)
   \<and> (monitoring g \<and> is_process_running (lower (game_stem g)) (game_path g) s = Inl e \<longrightarrow>
        monitor_loop g ((s, True) # ticks)
          = (PrintProbeError e # fst (gm_edge g False)
               @ fst (monitor_loop (snd (gm_edge g False)) ticks),
             snd (monitor_loop (snd (gm_edge g False)) ticks)))"
proof -
  have r: "run (ConfigMonitor p stem n) ts = run_loop False ts" for ts
    by (simp add: run_def ConfigMonitor_def)
  have m: "monitoring g \<Longrightarrow> snd (gm_edge g False)\<lparr>monitoring := True\<rparr> = snd (gm_edge g False)"
    by (simp add: gm_edge_def)
  have c: "run_loop False (map probe_tick ps @ (Inl e, st) # rest)
     = (fst (run_loop False (map probe_tick ps)) @ [OnError e], Raised e)"
    by (rule run_loop_fail)
  have k: "info_exe pr = Some (Inl e') \<and> (e' = NoSuchProcess \<or> e' = AccessDenied)
        \<and> \<not> name_matches process_stem pr \<longrightarrow>
        is_process_running process_stem exe (Inr pr # snap) = is_process_running process_stem exe snap"
    by auto
  have j: "monitor_loop g ((s, True) # ticks)
          = (PrintProbeError e # fst (gm_edge g False)
               @ fst (monitor_loop (snd (gm_edge g False)) ticks),
             snd (monitor_loop (snd (gm_edge g False)) ticks))"
    if "monitoring g" "is_process_running (lower (game_stem g)) (game_path g) s = Inl e"
    using that m monitor_loop_step[OF that(1), of s True ticks]
    by (simp add: gm_is_game_running_def del: monitor_loop.simps)
  show ?thesis
    using j k by (simp add: r c run_loop_no_error is_error_call_def del: monitor_loop.simps is_process_running.simps)
qed

theorem monitor_fail_fast_witness:
  "run (ConfigMonitor example_exe example_stem 3) (map probe_tick [False, True] @ (Inl OSError, False) # [(Inr False, False)])
     = ([OnLog LogProcessStarted, OnGameStarted, OnError OSError], Raised OSError)
   \<and> info_exe other_process = Some (Inl AccessDenied)
   \<and> \<not> name_matches (lower example_stem) other_process
   \<and> is_process_running (lower example_stem) example_exe [Inr other_process, Inr game_process] = Inr True
   \<and> monitoring (gm_start_monitoring (GameMonitor example_exe example_stem 3))
   \<and> is_process_running (lower example_stem) example_exe failing_snapshot = Inl OSError
   \<and> fst (monitor_loop (gm_start_monitoring (GameMonitor example_exe example_stem 3)) ((failing_snapshot, True) # []))
        = [PrintProbeError OSError]"
  using monitor_fail_fast[of example_exe example_stem 3 "[False, True]" OSError False "[(Inr False, False)]"
      other_process AccessDenied "lower example_stem" example_exe "[Inr game_process]"
      "gm_start_monitoring (GameMonitor example_exe example_stem 3)" failing_snapshot "[]"]
  by (simp add: run_def ConfigMonitor_def probe_tick_def edge_calls_def gm_start_monitoring_def GameMonitor_def
      failing_snapshot_def other_process_def game_process_def gm_edge_def example_stem_def example_exe_def
      lower_def lower_char_def startswith_def name_matches_def)

text \<open>
  Claim C7 as stated fails for \<^verbatim>\<open>GameMonitor\<close>: the probe of the first tick raises
  \<^verbatim>\<open>OSError\<close>, no callback reports it, and the second tick is still polled and sends
  its notification.
\<close>

theorem game_monitor_keeps_polling:
  "is_process_running (lower example_stem) example_exe failing_snapshot = Inl OSError
   \<and> fst (monitor_loop (gm_start_monitoring (GameMonitor example_exe example_stem 3))
          [(failing_snapshot, True), ([Inr game_process], False)])
     = [PrintProbeError OSError, NotifyGameStarted]"
  by (simp add: gm_start_monitoring_def GameMonitor_def gm_is_game_running_def gm_edge_def
      failing_snapshot_def other_process_def game_process_def example_stem_def example_exe_def
      lower_def lower_char_def startswith_def name_matches_def)

section \<open>The INI patch\<close>

lemma sublist_join: "x \<in> set ls \<Longrightarrow> sublist x (join sep ls)"
proof (induction sep ls rule: join.induct)
  case (1 sep)
  then show ?case by simp
next
  case (2 sep y)
  then show ?case by simp
next
  case (3 sep y z zs)
  show ?case
  proof (cases "x = y")
    case True
    then show ?thesis using sublist_appendI[of x "[]" "sep @ join sep (z # zs)"] by simp
  next
    case False
    then have "sublist x (join sep (z # zs))" using 3 by simp
    then have "sublist x ((y @ sep) @ join sep (z # zs))"
      using sublist_append by blast
    then show ?thesis by simp
  qed
qed

lemma sublist_finish_content: "target \<in> set ls \<Longrightarrow> sublist target (finish_content ls)"
  using sublist_join[of target ls newline] sublist_append[of target "join newline ls" newline]
  by (auto simp: finish_content_def Let_def)

lemma scan_lines_break:
  "scan_lines ls idx a b c rest = ScanBreak ls' \<Longrightarrow> idx + length rest = length ls \<Longrightarrow> target \<in> set ls'"
proof (induction rest arbitrary: idx a b c)
  case Nil
  then show ?case by simp
next
  case (Cons line rest)
  then show ?case
    by (auto simp: Let_def set_update_memI split: if_splits)
qed

lemma add_section_target:
  "add_section sf (add_to_section sf ii (ls, MsgEmpty, False)) = (ls', m, u) \<Longrightarrow> u \<and> target \<in> set ls'"
  by (auto simp: add_section_def add_to_section_def insert_at_def split: if_splits option.splits)

lemma write_text_written:
  "write_text fault d p s = Inr d' \<Longrightarrow> fault = None \<and> (\<exists>f. d' p = Some f \<and> data f = Text s)"
  by (auto simp: write_text_def split: option.splits)

lemma read_config_text:
  "d p = Some f \<Longrightarrow> data f = Text s \<Longrightarrow> read_config io d p = Inr c \<Longrightarrow> c = s"
  by (auto simp: read_config_def read_text_def split: option.splits sum.splits if_splits)

lemma apply_present:
  "exists d p \<Longrightarrow> read_config io d p = Inr content \<Longrightarrow> sublist target content \<Longrightarrow>
   apply_anti_aliasing_setting io d p = ((MsgAlreadyPresent, False), d)"
  by (simp add: apply_anti_aliasing_setting_def)

lemma apply_result:
  "apply_anti_aliasing_setting io d p = ((m, ch), d') \<Longrightarrow>
   (\<not> ch \<and> d' = d) \<or>
   (ch \<and> (\<exists>ls. target \<in> set ls \<and> write_text (write_fault io) d p (finish_content ls) = Inr d'))"
  unfolding apply_anti_aliasing_setting_def Let_def
  by (auto split: if_splits sum.splits scan.splits prod.splits
      dest!: add_section_target scan_lines_break)


lemma apply_after_apply:
  assumes "apply_anti_aliasing_setting io d p = ((m, True), d')"
  shows "snd (apply_anti_aliasing_setting io' d' p) = d' \<and> \<not> snd (fst (apply_anti_aliasing_setting io' d' p))"
proof -
  obtain ls where ls: "target \<in> set ls" "write_text (write_fault io) d p (finish_content ls) = Inr d'"
    using apply_result[OF assms] by blast
  obtain f where f: "d' p = Some f" "data f = Text (finish_content ls)"
    using write_text_written[OF ls(2)] by blast
  have e: "exists d' p" using f by (simp add: exists_def)
  show ?thesis
  proof (cases "read_config io' d' p")
    case (Inl exc)
    then show ?thesis using e by (simp add: apply_anti_aliasing_setting_def)
  next
    case (Inr c)
    then have "c = finish_content ls"
      using read_config_text[of d' p f "finish_content ls" io' c] f by simp
    then show ?thesis using apply_present[OF e Inr] sublist_finish_content[OF ls(1)] by simp
  qed
qed

lemma eval_present: "sublist target patched_text"
  by code_simp

lemma eval_absent: "\<not> sublist target plain_text"
  by code_simp

lemma eval_lines: "splitlines plain_text = [''[Display]'', ''x=1'']"
  by code_simp

lemma eval_scan:
  "scan_lines [''[Display]'', ''x=1''] 0 False False None [''[Display]'', ''x=1''] = ScanEnd False None"
  by code_simp

lemma eval_added:
  "add_section False (add_to_section False None ([''[Display]'', ''x=1''], MsgEmpty, False))
     = ([''[Display]'', ''x=1'', [], ''[ScalabilityGroups]'', target], MsgAddedSection, True)"
  by code_simp


lemma apply_plain:
  "apply_anti_aliasing_setting no_ini_faults (disk_with plain_text) example_config
     = ((MsgAddedSection, True),
        (disk_with plain_text)(example_config \<mapsto>
           \<lparr>data = Text (finish_content [''[Display]'', ''x=1'', [], ''[ScalabilityGroups]'', target]),
            st_mode = 33206\<rparr>))"
  by (simp add: apply_anti_aliasing_setting_def exists_def disk_with_def read_config_def read_text_def
      no_ini_faults_def eval_absent eval_lines eval_scan eval_added write_text_def Let_def
      del: scan_lines.simps)

lemma apply_patched:
  "exists (disk_with patched_text) example_config
   \<and> read_config no_ini_faults (disk_with patched_text) example_config = Inr patched_text"
  by (simp add: exists_def disk_with_def read_config_def read_text_def no_ini_faults_def)



text \<open>
  Claim C9. When the content read from the configuration file already contains the
  substring \<^verbatim>\<open>sg.AntiAliasingQuality=0\<close>, \<^verbatim>\<open>apply_anti_aliasing_setting\<close> answers
  False and writes nothing. An application that answers True leaves that substring in the
  file, so the next application answers False and writes nothing, whatever the system
  does to its reads and writes; and two applications under the same conditions leave the
  disk as one does.
\<close>

theorem apply_idempotent:
  "(exists d p \<and> read_config io d p = Inr content \<and> sublist target content \<longrightarrow>
      apply_anti_aliasing_setting io d p = ((MsgAlreadyPresent, False), d))
   \<and> (snd (fst (apply_anti_aliasing_setting io d p)) \<longrightarrow>
        snd (apply_anti_aliasing_setting io' (snd (apply_anti_aliasing_setting io d p)) p)
          = snd (apply_anti_aliasing_setting io d p)
        \<and> \<not> snd (fst (apply_anti_aliasing_setting io' (snd (apply_anti_aliasing_setting io d p)) p)))
   \<and> snd (apply_anti_aliasing_setting io (snd (apply_anti_aliasing_setting io d p)) p)
       = snd (apply_anti_aliasing_setting io d p)"
proof -
  obtain m ch d' where r: "apply_anti_aliasing_setting io d p = ((m, ch), d')"
    by (metis surj_pair)
  have a: "ch \<Longrightarrow> snd (apply_anti_aliasing_setting io2 d' p) = d'
      \<and> \<not> snd (fst (apply_anti_aliasing_setting io2 d' p))" for io2
    using apply_after_apply[of io d p m d' io2] r by simp
  have b: "\<not> ch \<Longrightarrow> d' = d" using apply_result[OF r] by blast
  have c: "snd (apply_anti_aliasing_setting io d' p) = d'"
    using a[of io] b r by (cases ch) simp_all
  have p: "exists d p \<and> read_config io d p = Inr content \<and> sublist target content \<longrightarrow>
      apply_anti_aliasing_setting io d p = ((MsgAlreadyPresent, False), d)"
    using apply_present[of d p io content] by blast
  have q: "snd (fst (apply_anti_aliasing_setting io d p)) \<longrightarrow>
        snd (apply_anti_aliasing_setting io' (snd (apply_anti_aliasing_setting io d p)) p)
          = snd (apply_anti_aliasing_setting io d p)
        \<and> \<not> snd (fst (apply_anti_aliasing_setting io' (snd (apply_anti_aliasing_setting io d p)) p))"
    using a[of io'] r by simp
  have t: "snd (apply_anti_aliasing_setting io (snd (apply_anti_aliasing_setting io d p)) p)
       = snd (apply_anti_aliasing_setting io d p)"
    using c r by simp
  show ?thesis using p q t by blast
qed

theorem apply_idempotent_witness:
  "exists (disk_with patched_text) example_config
   \<and> read_config no_ini_faults (disk_with patched_text) example_config = Inr patched_text
   \<and> sublist target patched_text
   \<and> apply_anti_aliasing_setting no_ini_faults (disk_with patched_text) example_config
        = ((MsgAlreadyPresent, False), disk_with patched_text)
   \<and> snd (fst (apply_anti_aliasing_setting no_ini_faults (disk_with plain_text) example_config))
   \<and> snd (apply_anti_aliasing_setting write_refused
        (snd (apply_anti_aliasing_setting no_ini_faults (disk_with plain_text) example_config)) example_config)
       = snd (apply_anti_aliasing_setting no_ini_faults (disk_with plain_text) example_config)"
  using apply_idempotent[of "disk_with patched_text" example_config no_ini_faults patched_text no_ini_faults]
    apply_idempotent[of "disk_with plain_text" example_config no_ini_faults patched_text write_refused]
    apply_patched eval_present apply_plain
  by simp



section \<open>The timer queue\<close>

lemma after_simps:
  "fst (after ms cb r) = next_id r"
  "next_id (snd (after ms cb r)) = next_id r + 1"
  "clock (snd (after ms cb r)) = clock r"
  "destroyed (snd (after ms cb r)) = destroyed r"
  "timers (snd (after ms cb r)) = timers r @ [\<lparr>timer_id = next_id r, due = clock r + ms, action = cb\<rparr>]"
  by (simp_all add: after_def)

lemma remove_timer_simps:
  "next_id (remove_timer j r) = next_id r"
  "clock (remove_timer j r) = clock r"
  "destroyed (remove_timer j r) = destroyed r"
  "timers (remove_timer j r) = filter (\<lambda>t. timer_id t \<noteq> j) (timers r)"
  by (simp_all add: remove_timer_def)

lemma restore_jobs_after:
  "restore_jobs (snd (after ms cb r)) = restore_jobs r @ (if cb = CbRestoreBackupToGame then [next_id r] else [])"
  by (simp add: restore_jobs_def after_simps)

lemma restore_jobs_remove:
  "restore_jobs (remove_timer j r) = filter (\<lambda>i. i \<noteq> j) (restore_jobs r)"
proof -
  have "map timer_id (filter P (filter (\<lambda>t. timer_id t \<noteq> j) ts)) = filter (\<lambda>i. i \<noteq> j) (map timer_id (filter P ts))" for P ts
    by (induction ts) auto
  then show ?thesis by (simp add: restore_jobs_def remove_timer_simps)
qed

lemma ids_bounded_after: "ids_bounded r \<Longrightarrow> ids_bounded (snd (after ms cb r))"
  by (fastforce simp: ids_bounded_def after_simps list_all_iff)

lemma ids_bounded_remove: "ids_bounded r \<Longrightarrow> ids_bounded (remove_timer j r)"
  by (auto simp: ids_bounded_def remove_timer_simps list_all_iff distinct_map_filter)

lemma get_delay_frame:
  "root (snd (get_restore_delay_seconds a)) = root a"
  "pending_restore_job (snd (get_restore_delay_seconds a)) = pending_restore_job a"
  "monitor_thread (snd (get_restore_delay_seconds a)) = monitor_thread a"
  "threads (snd (get_restore_delay_seconds a)) = threads a"
  "game_currently_running (snd (get_restore_delay_seconds a)) = game_currently_running a"
  "disk (snd (get_restore_delay_seconds a)) = disk a"
  "log_widget (snd (get_restore_delay_seconds a)) = log_widget a"
  "dialogs (snd (get_restore_delay_seconds a)) = dialogs a"
  "selected_config_path (snd (get_restore_delay_seconds a)) = selected_config_path a"
  by (simp_all add: get_restore_delay_seconds_def Let_def split: option.splits)

section \<open>The handlers keep the single slot\<close>

lemma on_game_started_Inr:
  "\<exists>a'. on_game_started a = Inr a' \<and> root a' = started_root a
     \<and> pending_restore_job a' = Some (next_id (root a)) \<and> game_currently_running a'
     \<and> monitor_thread a' = monitor_thread a \<and> threads a' = threads a \<and> disk a' = disk a
     \<and> selected_config_path a' = selected_config_path a"
  unfolding on_game_started_def started_root_def
  by (cases "pending_restore_job a")
     (simp_all add: case_prod_beta Let_def get_delay_frame after_cancel_def after_simps remove_timer_simps
      log_message_def send_notification_def)

lemma cancelled_root_jobs: "pending_invariant a \<Longrightarrow> restore_jobs (cancelled_root a) = []"
  by (cases "pending_restore_job a")
     (auto simp: cancelled_root_def pending_invariant_def restore_jobs_remove)

lemma cancelled_root_bounded: "ids_bounded (root a) \<Longrightarrow> ids_bounded (cancelled_root a)"
  by (cases "pending_restore_job a") (simp_all add: cancelled_root_def ids_bounded_remove)

lemma started_root_cancelled:
  "started_root a = snd (after (max 0 (fst (get_restore_delay_seconds (a\<lparr>game_currently_running := True\<rparr>))) * 1000)
            CbRestoreBackupToGame (cancelled_root a))"
  by (simp add: started_root_def cancelled_root_def)

lemma cancelled_root_next: "next_id (cancelled_root a) = next_id (root a)"
  by (cases "pending_restore_job a") (simp_all add: cancelled_root_def remove_timer_simps)

lemma started_root_jobs: "pending_invariant a \<Longrightarrow> restore_jobs (started_root a) = [next_id (root a)]"
  by (simp add: started_root_cancelled restore_jobs_after cancelled_root_jobs cancelled_root_next)

lemma started_root_bounded: "ids_bounded (root a) \<Longrightarrow> ids_bounded (started_root a)"
  by (simp add: started_root_cancelled ids_bounded_after cancelled_root_bounded)

lemma started_root_next: "next_id (started_root a) = next_id (root a) + 1"
  by (simp add: started_root_cancelled after_simps cancelled_root_next)

lemma on_game_started_inv:
  assumes "pending_invariant a" "on_game_started a = Inr a'"
  shows "pending_invariant a'"
proof -
  obtain b where b: "on_game_started a = Inr b" "root b = started_root a"
     "pending_restore_job b = Some (next_id (root a))"
    using on_game_started_Inr[of a] by blast
  then have "b = a'" using assms by simp
  then show ?thesis using b assms(1) started_root_jobs[of a] started_root_bounded[of a]
    by (simp add: pending_invariant_def)
qed

lemma on_game_stopped_Inr:
  "\<exists>a'. on_game_stopped a = Inr a'
     \<and> root a' = cancelled_root a
     \<and> pending_restore_job a' = None \<and> \<not> game_currently_running a'
     \<and> monitor_thread a' = monitor_thread a \<and> threads a' = threads a \<and> disk a' = disk a"
  unfolding on_game_stopped_def cancelled_root_def
  by (cases "pending_restore_job a")
     (simp_all add: Let_def after_cancel_def log_message_def send_notification_def)

lemma on_game_stopped_inv:
  assumes "pending_invariant a" "on_game_stopped a = Inr a'"
  shows "pending_invariant a'"
proof -
  obtain b where b: "on_game_stopped a = Inr b" "root b = cancelled_root a"
     "pending_restore_job b = None"
    using on_game_stopped_Inr[of a] by blast
  then have "b = a'" using assms by simp
  then show ?thesis using b cancelled_root_jobs[OF assms(1)] cancelled_root_bounded[of a] assms(1)
    by (simp add: pending_invariant_def)
qed

lemma stop_monitoring_None: "monitor_thread a = None \<Longrightarrow> stop_monitoring a = Inr a"
  by (simp add: stop_monitoring_def)

lemma stop_monitoring_Some:
  "monitor_thread a = Some i \<Longrightarrow>
   \<exists>a'. stop_monitoring a = Inr a'
     \<and> root a' = cancelled_root a
     \<and> pending_restore_job a' = None \<and> \<not> game_currently_running a'
     \<and> monitor_thread a' = None \<and> threads a' = (threads a)[i := stop (threads a ! i)] \<and> disk a' = disk a"
  unfolding stop_monitoring_def cancelled_root_def
  by (cases "pending_restore_job a")
     (simp_all add: Let_def after_cancel_def log_message_def)

lemma stop_monitoring_total: "\<exists>a'. stop_monitoring a = Inr a'"
  using stop_monitoring_None[of a] stop_monitoring_Some[of a] by (cases "monitor_thread a") auto

lemma stop_monitoring_inv:
  assumes "pending_invariant a" "stop_monitoring a = Inr a'"
  shows "pending_invariant a'"
proof (cases "monitor_thread a")
  case None
  then show ?thesis using assms stop_monitoring_None by simp
next
  case (Some i)
  then obtain b where b: "stop_monitoring a = Inr b" "root b = cancelled_root a"
     "pending_restore_job b = None"
    using stop_monitoring_Some[of a i] by blast
  then have "b = a'" using assms by simp
  then show ?thesis using b cancelled_root_jobs[OF assms(1)] cancelled_root_bounded[of a] assms(1)
    by (simp add: pending_invariant_def)
qed

lemma handle_monitor_error_inv:
  "pending_invariant a \<Longrightarrow> handle_monitor_error e a = Inr a' \<Longrightarrow> pending_invariant a'"
proof -
  assume i: "pending_invariant a" and h: "handle_monitor_error e a = Inr a'"
  let ?b = "showbox (ErrorMonitor e) (log_message (LogMonitorError e) a)"
  have "pending_invariant ?b" using i by (simp add: pending_invariant_def showbox_def log_message_def)
  moreover have "stop_monitoring ?b = Inr a'" using h by (simp add: handle_monitor_error_def)
  ultimately show "pending_invariant a'" by (rule stop_monitoring_inv)
qed

lemma handle_monitor_error_total: "\<exists>a'. handle_monitor_error e a = Inr a'"
  by (simp add: handle_monitor_error_def stop_monitoring_total)

lemma restore_frame:
  "root (restore_backup_to_game fl a) = root a \<and> pending_restore_job (restore_backup_to_game fl a) = None"
  by (simp add: restore_backup_to_game_def Let_def log_message_def showbox_def send_notification_def
      split: option.splits sum.splits)

lemma post_frame:
  "pending_restore_job (post c a) = pending_restore_job a"
  "restore_jobs (root (post c a)) = restore_jobs (root a)"
  "ids_bounded (root a) \<Longrightarrow> ids_bounded (root (post c a))"
  "threads (post c a) = threads a" "monitor_thread (post c a) = monitor_thread a"
  "disk (post c a) = disk a" "log_widget (post c a) = log_widget a"
  by (cases c; simp add: post_def restore_jobs_after ids_bounded_after)+

lemma post_inv: "pending_invariant a \<Longrightarrow> pending_invariant (post c a)"
  by (simp add: pending_invariant_def post_frame)

lemma fold_post_inv: "pending_invariant a \<Longrightarrow> pending_invariant (fold post cs a)"
  by (induction cs arbitrary: a) (simp_all add: post_inv)

lemma thread_poll_inv: "pending_invariant a \<Longrightarrow> pending_invariant (thread_poll i outcome a)"
proof -
  assume i: "pending_invariant a"
  have f: "pending_invariant (b\<lparr>threads := ts\<rparr>) = pending_invariant b" for b ts by (simp add: pending_invariant_def)
  show ?thesis unfolding thread_poll_def Let_def
    by (simp add: f i fold_post_inv case_prod_beta)
qed

lemma start_monitoring_inv: "pending_invariant a \<Longrightarrow> pending_invariant (start_monitoring g a)"
proof -
  assume i: "pending_invariant a"
  have p: "pending_invariant (persist_settings b) = pending_invariant b" for b
    by (simp add: pending_invariant_def persist_settings_def get_delay_frame)
  have l: "pending_invariant (log_message m b) = pending_invariant b" for m b by (simp add: pending_invariant_def log_message_def)
  have s: "pending_invariant (showbox m b) = pending_invariant b" for m b by (simp add: pending_invariant_def showbox_def)
  have t: "pending_invariant (b\<lparr>monitor_thread := x, threads := ts\<rparr>) = pending_invariant b" for b x ts by (simp add: pending_invariant_def)
  show ?thesis unfolding start_monitoring_def Let_def
    by (simp add: p l s t i split: option.splits prod.splits)
qed

lemma run_callback_total: "\<exists>a'. run_callback fl cb a = Inr a'"
proof (cases cb)
  case CbOnGameStarted
  then show ?thesis using on_game_started_Inr[of a] by (auto simp: run_callback_def)
next
  case CbOnGameStopped
  then show ?thesis using on_game_stopped_Inr[of a] by (auto simp: run_callback_def)
next
  case (CbHandleMonitorError e)
  then show ?thesis using handle_monitor_error_total[of e a] by (simp add: run_callback_def)
qed (simp_all add: run_callback_def)

lemma dispatch_total: "\<exists>a'. dispatch j fl a = Inr a'"
  unfolding dispatch_def using run_callback_total
  by (simp split: option.splits)

lemma find_restore:
  assumes "ids_bounded r" "find (\<lambda>t. timer_id t = j) (timers r) = Some t"
  shows "(action t = CbRestoreBackupToGame) = (j \<in> set (restore_jobs r))"
proof -
  have t: "t \<in> set (timers r)" "timer_id t = j"
    using assms(2) by (auto simp: find_Some_iff)
  have inj: "inj_on timer_id (set (timers r))"
    using assms(1) by (simp add: ids_bounded_def distinct_map)
  show ?thesis
  proof
    assume "action t = CbRestoreBackupToGame"
    then show "j \<in> set (restore_jobs r)" using t by (force simp: restore_jobs_def)
  next
    assume "j \<in> set (restore_jobs r)"
    then obtain t' where "t' \<in> set (timers r)" "timer_id t' = j" "action t' = CbRestoreBackupToGame"
      by (auto simp: restore_jobs_def)
    then show "action t = CbRestoreBackupToGame" using t inj by (auto dest: inj_onD)
  qed
qed

lemma dispatch_inv:
  assumes i: "pending_invariant a" and d: "dispatch j fl a = Inr a'"
  shows "pending_invariant a'"
proof (cases "find (\<lambda>t. timer_id t = j) (timers (root a))")
  case None
  then show ?thesis using i d by (simp add: dispatch_def)
next
  case (Some t)
  show ?thesis
  proof (cases "clock (root a) < due t")
    case True
    then show ?thesis using i d Some by (simp add: dispatch_def)
  next
    case False
    let ?a1 = "a\<lparr>root := remove_timer j (root a)\<rparr>"
    have run: "run_callback fl (action t) ?a1 = Inr a'"
      using d Some False by (simp add: dispatch_def)
    have b: "ids_bounded (root a)" using i by (simp add: pending_invariant_def)
    have fr: "(action t = CbRestoreBackupToGame) = (j \<in> set (restore_jobs (root a)))"
      using find_restore[OF b Some] .
    show ?thesis
    proof (cases "action t = CbRestoreBackupToGame")
      case True
      then have "restore_jobs (root ?a1) = []"
        using fr i by (auto simp: pending_invariant_def restore_jobs_remove)
      moreover have "a' = restore_backup_to_game fl ?a1"
        using run True by (simp add: run_callback_def)
      ultimately show ?thesis
        using restore_frame[of fl ?a1] b by (simp add: pending_invariant_def ids_bounded_remove)
    next
      case False
      then have "j \<notin> set (restore_jobs (root a))" using fr by simp
      then have "restore_jobs (root ?a1) = restore_jobs (root a)"
        by (auto simp: restore_jobs_remove filter_id_conv)
      then have i1: "pending_invariant ?a1" using i by (simp add: pending_invariant_def ids_bounded_remove)
      show ?thesis
      proof (cases "action t")
        case (CbLogMessage m)
        then show ?thesis using run i1 by (auto simp: run_callback_def pending_invariant_def log_message_def)
      next
        case CbOnGameStarted
        then show ?thesis using run i1 on_game_started_inv by (simp add: run_callback_def)
      next
        case CbOnGameStopped
        then show ?thesis using run i1 on_game_stopped_inv by (simp add: run_callback_def)
      next
        case (CbHandleMonitorError e)
        then show ?thesis using run i1 handle_monitor_error_inv by (simp add: run_callback_def)
      next
        case CbRestoreBackupToGame
        then show ?thesis using False by simp
      next
        case CbShowSponsorPopup
        then show ?thesis using run i1 by (simp add: run_callback_def)
      qed
    qed
  qed
qed

lemma on_close_total: "\<exists>a'. on_close a = Inr a'"
  using stop_monitoring_total[of "persist_settings (a\<lparr>closing := True\<rparr>)"]
  by (auto simp: on_close_def)

lemma cleared_inv: "pending_invariant (b\<lparr>root := (root b)\<lparr>timers := [], destroyed := True\<rparr>\<rparr>)"
  by (simp add: pending_invariant_def ids_bounded_def restore_jobs_def)

lemma on_close_inv: "pending_invariant a \<Longrightarrow> on_close a = Inr a' \<Longrightarrow> pending_invariant a'"
proof (cases "closing a")
  case True
  assume "pending_invariant a" "on_close a = Inr a'"
  then show ?thesis using True by (simp add: on_close_def)
next
  case False
  assume "pending_invariant a" and c: "on_close a = Inr a'"
  obtain a1 where a1: "stop_monitoring (persist_settings (a\<lparr>closing := True\<rparr>)) = Inr a1"
    using stop_monitoring_total by blast
  then have "a' = a1\<lparr>root := (root a1)\<lparr>timers := [], destroyed := True\<rparr>\<rparr>"
    using c False by (simp add: on_close_def)
  then show ?thesis using cleared_inv by simp
qed

lemma step_total: "\<exists>a'. step ev a = Inr a'"
  using stop_monitoring_total on_close_total dispatch_total
  by (cases ev) (simp_all add: step_def)

lemma step_inv: "pending_invariant a \<Longrightarrow> step ev a = Inr a' \<Longrightarrow> pending_invariant a'"
proof -
  assume i: "pending_invariant a" and s: "step ev a = Inr a'"
  have p: "pending_invariant (persist_settings b) = pending_invariant b" for b
    by (simp add: pending_invariant_def persist_settings_def get_delay_frame)
  show ?thesis
  proof (cases "destroyed (root a)")
    case True
    then show ?thesis using i s by (simp add: step_def)
  next
    case False
    show ?thesis
    proof (cases ev)
      case (ClickStart g)
      then have "a' = start_monitoring g a" using s False by (simp add: step_def)
      then show ?thesis using i by (simp add: start_monitoring_inv)
    next
      case ClickStop
      then show ?thesis using i s False stop_monitoring_inv by (simp add: step_def)
    next
      case (EditDelay v)
      then have "a' = a\<lparr>restore_delay_var := v\<rparr>" using s False by (simp add: step_def)
      then show ?thesis using i by (simp add: pending_invariant_def)
    next
      case (SelectConfig c)
      then have "a' = on_config_selected c a" using s False by (simp add: step_def)
      then show ?thesis using i
        by (cases c) (simp_all add: on_config_selected_def p, simp_all add: pending_invariant_def log_message_def)
    next
      case (DiskChanges d)
      then have "a' = a\<lparr>disk := d\<rparr>" using s False by (simp add: step_def)
      then show ?thesis using i by (simp add: pending_invariant_def)
    next
      case Close
      then show ?thesis using i s False on_close_inv by (simp add: step_def)
    next
      case (TimePasses ms)
      then have "a' = time_passes ms a" using s False by (simp add: step_def)
      then show ?thesis using i
        by (simp add: pending_invariant_def time_passes_def ids_bounded_def restore_jobs_def)
    next
      case (Dispatch j fl)
      then show ?thesis using i s False dispatch_inv by (simp add: step_def)
    next
      case (ThreadPoll k outcome)
      then have "a' = thread_poll k outcome a" using s False by (simp add: step_def)
      then show ?thesis using i by (simp add: thread_poll_inv)
    qed
  qed
qed

lemma exec_total: "\<exists>a'. exec evs a = Inr a'"
proof (induction evs arbitrary: a)
  case Nil
  then show ?case by simp
next
  case (Cons ev evs)
  obtain b where "step ev a = Inr b" using step_total by blast
  then show ?case using Cons by simp
qed

lemma exec_inv: "pending_invariant a \<Longrightarrow> exec evs a = Inr a' \<Longrightarrow> pending_invariant a'"
proof (induction evs arbitrary: a)
  case Nil
  then show ?case by simp
next
  case (Cons ev evs)
  obtain b where b: "step ev a = Inr b" using step_total by blast
  then have "pending_invariant b" using Cons.prems(1) step_inv by blast
  then show ?case using Cons b by simp
qed

lemma init_inv: "pending_invariant (DeltaForceConfigApp sd sp d)"
  by (simp add: DeltaForceConfigApp_def pending_invariant_def ids_bounded_def restore_jobs_def after_def)

section \<open>The concrete states\<close>

lemma paths_differ: "example_config \<noteq> BACKUP_FILE"
  by (simp add: example_config_def BACKUP_FILE_def)

lemma example_app_fields:
  "selected_config_path example_app = Some example_config"
  "disk example_app = example_disk"
  "restore_delay_var example_app = Some 0"
  "\<not> game_currently_running example_app"
  "next_id (root example_app) = 1"
  "log_widget example_app = []"
  "dialogs example_app = []"
  "monitor_thread example_app = None"
  "threads example_app = []"
  by (simp_all add: example_app_def DeltaForceConfigApp_def exists_def example_disk_def after_def)

lemma example_disk_files:
  "example_disk example_config = Some live_rec"
  "example_disk BACKUP_FILE = Some backup_rec"
  using paths_differ by (auto simp: example_disk_def)

lemma monitoring_app_fields:
  "monitor_thread monitoring_app = Some 0"
  "length (threads monitoring_app) = 1"
  "root monitoring_app = root example_app"
  "pending_restore_job monitoring_app = None"
  by (simp_all add: monitoring_app_def start_monitoring_def example_app_def DeltaForceConfigApp_def
      exists_def example_disk_def Let_def persist_settings_def get_restore_delay_seconds_def
      log_message_def is_alive_def)

lemma monitoring_app_inv: "pending_invariant monitoring_app"
  unfolding monitoring_app_def example_app_def
  by (rule start_monitoring_inv) (rule init_inv)

lemma running_app_fields:
  "game_currently_running running_app"
  "selected_config_path running_app = Some example_config"
  "disk running_app = example_disk"
  "log_widget running_app = []"
  "dialogs running_app = []"
  by (simp_all add: running_app_def example_app_fields)

section \<open>One pending restore\<close>

lemma pending_invariant_length: "pending_invariant a \<Longrightarrow> length (restore_jobs (root a)) \<le> 1"
  by (auto simp: pending_invariant_def dest: arg_cong[where f=length])

lemma started_root_timers:
  "timers (started_root a) = timers (cancelled_root a)
     @ [\<lparr>timer_id = next_id (root a),
         due = clock (root a) + max 0 (fst (get_restore_delay_seconds (a\<lparr>game_currently_running := True\<rparr>))) * 1000,
         action = CbRestoreBackupToGame\<rparr>]"
proof -
  have "clock (cancelled_root a) = clock (root a)"
    by (cases "pending_restore_job a") (simp_all add: cancelled_root_def remove_timer_simps)
  then show ?thesis
    by (simp add: started_root_cancelled after_simps cancelled_root_next)
qed

lemma cancelled_root_ids:
  "ids_bounded (root a) \<Longrightarrow> t \<in> set (timers (cancelled_root a)) \<Longrightarrow> timer_id t < next_id (root a)"
  by (cases "pending_restore_job a")
     (auto simp: cancelled_root_def remove_timer_simps ids_bounded_def list_all_iff)

lemma cancelled_root_absent:
  "pending_restore_job a = Some j \<Longrightarrow> j \<notin> set (map timer_id (timers (cancelled_root a)))"
  by (auto simp: cancelled_root_def remove_timer_simps)

lemma two_starts:
  assumes i: "pending_invariant a"
  shows "\<exists>a1 a2. on_game_started a = Inr a1 \<and> on_game_started a1 = Inr a2
        \<and> restore_jobs (root a1) = [next_id (root a)] \<and> pending_restore_job a1 = Some (next_id (root a))
        \<and> restore_jobs (root a2) = [Suc (next_id (root a))]
        \<and> pending_restore_job a2 = Some (Suc (next_id (root a)))
        \<and> next_id (root a) \<notin> set (map timer_id (timers (root a2)))"
proof -
  obtain a1 where a1: "on_game_started a = Inr a1" "root a1 = started_root a"
    "pending_restore_job a1 = Some (next_id (root a))"
    using on_game_started_Inr[of a] by blast
  have i1: "pending_invariant a1" using on_game_started_inv[OF i a1(1)] .
  obtain a2 where a2: "on_game_started a1 = Inr a2" "root a2 = started_root a1"
    "pending_restore_job a2 = Some (next_id (root a1))"
    using on_game_started_Inr[of a1] by blast
  have n1: "next_id (root a1) = next_id (root a) + 1" using a1 by (simp add: started_root_next)
  have b1: "ids_bounded (root a1)" using i1 by (simp add: pending_invariant_def)
  have "next_id (root a) \<notin> set (map timer_id (timers (cancelled_root a1)))"
    using cancelled_root_absent[OF a1(3)] .
  then have "next_id (root a) \<notin> set (map timer_id (timers (root a2)))"
    using a2(2) n1 by (simp add: started_root_timers)
  then show ?thesis
    using a1 a2 n1 started_root_jobs[OF i] started_root_jobs[OF i1] by auto
qed

text \<open>
  Claim C2. In every state the application reaches from its initial state, by any sequence
  of user actions, polls of the monitor threads, passing time and timers run by Tk, no
  handler raises and the timer queue holds at most one restore timer, which is the one
  \<open>pending_restore_job\<close> names. A started-edge that arrives while a handle is pending
  cancels it before scheduling the new one: after two started-edges in succession the
  queue holds the second handle only.
\<close>

theorem single_pending_restore:
  "(\<exists>a. exec evs (DeltaForceConfigApp sd sp d) = Inr a \<and> pending_invariant a
        \<and> length (restore_jobs (root a)) \<le> 1)
   \<and> (pending_invariant s \<longrightarrow>
        (\<exists>a1 a2. on_game_started s = Inr a1 \<and> on_game_started a1 = Inr a2
           \<and> restore_jobs (root a1) = [next_id (root s)]
           \<and> pending_restore_job a1 = Some (next_id (root s))
           \<and> restore_jobs (root a2) = [Suc (next_id (root s))]
           \<and> pending_restore_job a2 = Some (Suc (next_id (root s)))
           \<and> next_id (root s) \<notin> set (map timer_id (timers (root a2)))))"
proof -
  obtain a where a: "exec evs (DeltaForceConfigApp sd sp d) = Inr a" using exec_total by blast
  have "pending_invariant a" using exec_inv[OF init_inv a] .
  then show ?thesis using a pending_invariant_length two_starts by blast
qed

theorem single_pending_restore_witness:
  "pending_invariant example_app
   \<and> (\<exists>a. exec [ClickStart (Some (example_exe, example_stem)), ThreadPoll 0 (Inr True),
                 Dispatch 1 no_restore_faults, Dispatch 2 no_restore_faults,
                 ThreadPoll 0 (Inr False), ThreadPoll 0 (Inr True), Dispatch 5 no_restore_faults]
             example_app = Inr a \<and> length (restore_jobs (root a)) \<le> 1)
   \<and> (\<exists>a1 a2. on_game_started example_app = Inr a1 \<and> on_game_started a1 = Inr a2
         \<and> restore_jobs (root a1) = [1] \<and> restore_jobs (root a2) = [2]
         \<and> pending_restore_job a2 = Some 2)"
  using single_pending_restore[of "[ClickStart (Some (example_exe, example_stem)), ThreadPoll 0 (Inr True),
                 Dispatch 1 no_restore_faults, Dispatch 2 no_restore_faults,
                 ThreadPoll 0 (Inr False), ThreadPoll 0 (Inr True), Dispatch 5 no_restore_faults]"
      "Some 0" "Some example_config" example_disk example_app]
    init_inv[of "Some 0" "Some example_config" example_disk] example_app_fields(5)
  by (auto simp: example_app_def)

section \<open>Cancelling the pending restore\<close>





section \<open>The restore\<close>

lemma not_write_bit: "and (and (m::int) (not S_IWRITE)) S_IWRITE = 0"
  by (simp add: and.assoc)

lemma restore_skip:
  "\<not> game_currently_running a \<Longrightarrow>
   restore_backup_to_game fl a = log_message LogSkipRestore (a\<lparr>pending_restore_job := None\<rparr>)"
  by (simp add: restore_backup_to_game_def)

lemma restore_copies:
  assumes "game_currently_running a" "selected_config_path a = Some cfg" "disk a cfg = Some L"
    "disk a BACKUP_FILE = Some B" "cfg \<noteq> BACKUP_FILE" "copy_fault fl = None"
  shows "disk (restore_backup_to_game fl a) =
           ensure_read_only (read_only_fault fl)
             ((ensure_writable (writable_fault fl) (disk a) cfg)(cfg \<mapsto> B)) cfg"
    and "log_widget (restore_backup_to_game fl a) = log_widget a @ [LogRestoreDone]"
    and "dialogs (restore_backup_to_game fl a) = dialogs a"
    and "notifications (restore_backup_to_game fl a) = notifications a @ [NoticeRestored]"
    and "pending_restore_job (restore_backup_to_game fl a) = None"
proof -
  have b: "ensure_writable w (disk a) cfg BACKUP_FILE = Some B" for w
    using assms by (simp add: ensure_writable_def)
  have c: "copy2 None (ensure_writable w (disk a) cfg) BACKUP_FILE cfg
       = Inr ((ensure_writable w (disk a) cfg)(cfg \<mapsto> B))" for w
    using assms b[of w] by (simp add: copy2_def)
  have r: "restore_backup_to_game fl a =
      send_notification NoticeRestored (log_message LogRestoreDone
        (a\<lparr>pending_restore_job := None,
           disk := ensure_read_only (read_only_fault fl)
             ((ensure_writable (writable_fault fl) (disk a) cfg)(cfg \<mapsto> B)) cfg\<rparr>))"
    using assms c by (simp add: restore_backup_to_game_def exists_def Let_def)
  show "disk (restore_backup_to_game fl a) =
           ensure_read_only (read_only_fault fl)
             ((ensure_writable (writable_fault fl) (disk a) cfg)(cfg \<mapsto> B)) cfg"
    and "log_widget (restore_backup_to_game fl a) = log_widget a @ [LogRestoreDone]"
    and "dialogs (restore_backup_to_game fl a) = dialogs a"
    and "notifications (restore_backup_to_game fl a) = notifications a @ [NoticeRestored]"
    and "pending_restore_job (restore_backup_to_game fl a) = None"
    by (simp_all add: r send_notification_def log_message_def)
qed



lemma ensure_read_only_data:
  "map_option data (ensure_read_only w d cfg p) = map_option data (d p)"
  by (simp add: ensure_read_only_def split: option.splits)

lemma ensure_writable_other: "p \<noteq> cfg \<Longrightarrow> ensure_writable w d cfg p = d p"
  by (simp add: ensure_writable_def split: option.splits)

lemma ensure_read_only_other: "p \<noteq> cfg \<Longrightarrow> ensure_read_only w d cfg p = d p"
  by (simp add: ensure_read_only_def split: option.splits)

lemma find_snoc:
  "find P (xs @ [x]) = (case find P xs of Some y \<Rightarrow> Some y | None \<Rightarrow> if P x then Some x else None)"
  by (induction xs) simp_all

lemma find_started:
  assumes "ids_bounded (root s)"
  shows "find (\<lambda>t. timer_id t = next_id (root s)) (timers (started_root s))
     = Some \<lparr>timer_id = next_id (root s),
         due = clock (root s) + max 0 (fst (get_restore_delay_seconds (s\<lparr>game_currently_running := True\<rparr>))) * 1000,
         action = CbRestoreBackupToGame\<rparr>"
proof -
  have "find (\<lambda>t. timer_id t = next_id (root s)) (timers (cancelled_root s)) = None"
    using cancelled_root_ids[OF assms] by (fastforce simp: find_None_iff)
  then show ?thesis by (simp add: started_root_timers find_snoc)
qed

lemma started_root_clock: "clock (started_root s) = clock (root s)"
  by (cases "pending_restore_job s")
     (simp_all add: started_root_def after_simps remove_timer_simps)

lemma delay_zero:
  "restore_delay_var s = Some 0 \<Longrightarrow> fst (get_restore_delay_seconds (s\<lparr>game_currently_running := True\<rparr>)) = 0"
  by (simp add: get_restore_delay_seconds_def)

lemma immediate_restore:
  assumes i: "pending_invariant s" and z: "restore_delay_var s = Some 0"
    and c: "selected_config_path s = Some cfg" "disk s cfg = Some L" "disk s BACKUP_FILE = Some B"
      "cfg \<noteq> BACKUP_FILE" "copy_fault fl = None"
  shows "\<exists>a1 a2. on_game_started s = Inr a1 \<and> dispatch (next_id (root s)) fl a1 = Inr a2
           \<and> map_option data (disk a2 cfg) = Some (data B)
           \<and> log_widget a2 = log_widget a1 @ [LogRestoreDone]"
proof -
  obtain a1 where a1: "on_game_started s = Inr a1" "root a1 = started_root s"
    "game_currently_running a1" "disk a1 = disk s" "selected_config_path a1 = selected_config_path s"
    using on_game_started_Inr[of s] by blast
  have b: "ids_bounded (root s)" using i by (simp add: pending_invariant_def)
  let ?a = "a1\<lparr>root := remove_timer (next_id (root s)) (root a1)\<rparr>"
  have d: "dispatch (next_id (root s)) fl a1 = Inr (restore_backup_to_game fl ?a)"
    using find_started[OF b] a1(2) delay_zero[OF z]
    by (simp add: dispatch_def run_callback_def started_root_clock)
  have r: "disk (restore_backup_to_game fl ?a) =
           ensure_read_only (read_only_fault fl)
             ((ensure_writable (writable_fault fl) (disk ?a) cfg)(cfg \<mapsto> B)) cfg"
     "log_widget (restore_backup_to_game fl ?a) = log_widget ?a @ [LogRestoreDone]"
    using restore_copies(1,2)[of ?a cfg L B fl] a1 c by simp_all
  have "map_option data (disk (restore_backup_to_game fl ?a) cfg) = Some (data B)"
    by (simp add: r(1) ensure_read_only_data)
  then show ?thesis using a1(1) d r(2) by simp
qed

text \<open>
  Claim C4. When the restore timer fires, \<^verbatim>\<open>_restore_backup_to_game\<close> reads
  \<open>game_currently_running\<close> as it is then, not as it was when the restore was scheduled:
  when it is False the restore is skipped, the skip is logged and the disk is untouched,
  also for a restore that a started-edge scheduled. With a delay of 0 the timer is due at
  once: run without any time passing, with the game running, the configuration and the
  backup in place and a copy that does not fail, it copies the backup over the
  configuration.
\<close>

theorem fire_time_recheck:
  "(\<not> game_currently_running a \<longrightarrow>
       disk (restore_backup_to_game fl a) = disk a
       \<and> log_widget (restore_backup_to_game fl a) = log_widget a @ [LogSkipRestore]
       \<and> dialogs (restore_backup_to_game fl a) = dialogs a
       \<and> pending_restore_job (restore_backup_to_game fl a) = None)
   \<and> (\<exists>a1. on_game_started s = Inr a1 \<and> game_currently_running a1
        \<and> disk (restore_backup_to_game fl (a1\<lparr>game_currently_running := False\<rparr>)) = disk s
        \<and> log_widget (restore_backup_to_game fl (a1\<lparr>game_currently_running := False\<rparr>))
            = log_widget a1 @ [LogSkipRestore])
   \<and> (pending_invariant s \<and> restore_delay_var s = Some 0 \<and> selected_config_path s = Some cfg
        \<and> disk s cfg = Some L \<and> disk s BACKUP_FILE = Some B \<and> cfg \<noteq> BACKUP_FILE
        \<and> copy_fault fl = None \<longrightarrow>
        (\<exists>a1 a2. on_game_started s = Inr a1 \<and> dispatch (next_id (root s)) fl a1 = Inr a2
           \<and> map_option data (disk a2 cfg) = Some (data B)
           \<and> log_widget a2 = log_widget a1 @ [LogRestoreDone]))"
proof -
  have p1: "\<not> game_currently_running a \<longrightarrow>
       disk (restore_backup_to_game fl a) = disk a
       \<and> log_widget (restore_backup_to_game fl a) = log_widget a @ [LogSkipRestore]
       \<and> dialogs (restore_backup_to_game fl a) = dialogs a
       \<and> pending_restore_job (restore_backup_to_game fl a) = None"
    by (simp add: restore_skip log_message_def)
  obtain a1 where a1: "on_game_started s = Inr a1" "game_currently_running a1" "disk a1 = disk s"
    using on_game_started_Inr[of s] by blast
  have p2: "\<exists>a1. on_game_started s = Inr a1 \<and> game_currently_running a1
        \<and> disk (restore_backup_to_game fl (a1\<lparr>game_currently_running := False\<rparr>)) = disk s
        \<and> log_widget (restore_backup_to_game fl (a1\<lparr>game_currently_running := False\<rparr>))
            = log_widget a1 @ [LogSkipRestore]"
    using a1 by (simp add: restore_skip log_message_def)
  show ?thesis using p1 p2 immediate_restore[of s cfg L B fl] by blast
qed

theorem fire_time_recheck_witness:
  "\<not> game_currently_running example_app
   \<and> disk (restore_backup_to_game no_restore_faults example_app) = example_disk
   \<and> log_widget (restore_backup_to_game no_restore_faults example_app) = [LogSkipRestore]
   \<and> pending_invariant example_app \<and> restore_delay_var example_app = Some 0
   \<and> selected_config_path example_app = Some example_config
   \<and> disk example_app example_config = Some live_rec
   \<and> disk example_app BACKUP_FILE = Some backup_rec
   \<and> example_config \<noteq> BACKUP_FILE \<and> copy_fault no_restore_faults = None
   \<and> (\<exists>a1 a2. on_game_started example_app = Inr a1 \<and> dispatch 1 no_restore_faults a1 = Inr a2
          \<and> map_option data (disk a2 example_config) = Some (data backup_rec)
          \<and> log_widget a2 = log_widget a1 @ [LogRestoreDone])"
  using fire_time_recheck[of example_app no_restore_faults example_app example_config live_rec backup_rec]
    init_inv[of "Some 0" "Some example_config" example_disk]
    example_app_fields example_disk_files paths_differ
  by (simp add: no_restore_faults_def example_app_def[symmetric])

text \<open>
  Claim C5. For every backup file and live configuration that both exist, whatever their
  content and modes, a restore whose copy and whose final \<^verbatim>\<open>chmod\<close> succeed leaves the
  configuration with the content of the backup and without the write bit, leaves the
  backup as it was, and logs the success.
\<close>

theorem restore_postcondition:
  "game_currently_running a \<and> selected_config_path a = Some cfg \<and> disk a cfg = Some L
   \<and> disk a BACKUP_FILE = Some B \<and> cfg \<noteq> BACKUP_FILE
   \<and> copy_fault fl = None \<and> \<not> read_only_fault fl \<longrightarrow>
     map_option data (disk (restore_backup_to_game fl a) cfg) = Some (data B)
     \<and> map_option read_only (disk (restore_backup_to_game fl a) cfg) = Some True
     \<and> disk (restore_backup_to_game fl a) BACKUP_FILE = Some B
     \<and> log_widget (restore_backup_to_game fl a) = log_widget a @ [LogRestoreDone]
     \<and> dialogs (restore_backup_to_game fl a) = dialogs a"
proof
  assume h: "game_currently_running a \<and> selected_config_path a = Some cfg \<and> disk a cfg = Some L
   \<and> disk a BACKUP_FILE = Some B \<and> cfg \<noteq> BACKUP_FILE
   \<and> copy_fault fl = None \<and> \<not> read_only_fault fl"
  then have r: "disk (restore_backup_to_game fl a) =
           ensure_read_only False
             ((ensure_writable (writable_fault fl) (disk a) cfg)(cfg \<mapsto> B)) cfg"
    "log_widget (restore_backup_to_game fl a) = log_widget a @ [LogRestoreDone]"
    "dialogs (restore_backup_to_game fl a) = dialogs a"
    using restore_copies[of a cfg L B fl] by simp_all
  have "disk (restore_backup_to_game fl a) cfg = Some (B\<lparr>st_mode := and (st_mode B) (not S_IWRITE)\<rparr>)"
    by (simp add: r(1) ensure_read_only_def)
  moreover have ne: "BACKUP_FILE \<noteq> cfg" using h by auto
  moreover have "disk (restore_backup_to_game fl a) BACKUP_FILE = Some B"
    using h ne by (simp add: r(1) ensure_read_only_other ensure_writable_other)
  ultimately show "map_option data (disk (restore_backup_to_game fl a) cfg) = Some (data B)
     \<and> map_option read_only (disk (restore_backup_to_game fl a) cfg) = Some True
     \<and> disk (restore_backup_to_game fl a) BACKUP_FILE = Some B
     \<and> log_widget (restore_backup_to_game fl a) = log_widget a @ [LogRestoreDone]
     \<and> dialogs (restore_backup_to_game fl a) = dialogs a"
    using r by (simp add: read_only_def not_write_bit)
qed

theorem restore_postcondition_witness:
  "game_currently_running running_app \<and> selected_config_path running_app = Some example_config
   \<and> disk running_app example_config = Some live_rec
   \<and> disk running_app BACKUP_FILE = Some backup_rec \<and> example_config \<noteq> BACKUP_FILE
   \<and> copy_fault no_restore_faults = None \<and> \<not> read_only_fault no_restore_faults
   \<and> map_option data (disk (restore_backup_to_game no_restore_faults running_app) example_config)
        = Some (data backup_rec)
   \<and> map_option read_only (disk (restore_backup_to_game no_restore_faults running_app) example_config)
        = Some True
   \<and> log_widget (restore_backup_to_game no_restore_faults running_app) = [LogRestoreDone]"
  using restore_postcondition[of running_app example_config live_rec backup_rec no_restore_faults]
    running_app_fields example_disk_files paths_differ
  by (simp add: no_restore_faults_def)




section \<open>Stopping the monitoring\<close>

lemma run_stopped: "stop_event m \<Longrightarrow> run m ticks = ([], Returned)"
  by (simp add: run_def)

lemma thread_poll_stopped:
  "i < length (threads a) \<Longrightarrow> stop_event (threads a ! i) \<Longrightarrow>
   root (thread_poll i outcome a) = root a \<and> \<not> is_alive (thread_poll i outcome a) i
   \<and> pending_restore_job (thread_poll i outcome a) = pending_restore_job a"
  by (simp add: thread_poll_def is_alive_def Let_def)

lemma stop_registered:
  assumes i: "pending_invariant a" and m: "monitor_thread a = Some i" "i < length (threads a)"
  shows "\<exists>a1. stop_monitoring a = Inr a1 \<and> pending_restore_job a1 = None
            \<and> restore_jobs (root a1) = [] \<and> \<not> game_currently_running a1
            \<and> stop_event (threads a1 ! i)
            \<and> (\<forall>ticks. run (threads a1 ! i) ticks = ([], Returned))
            \<and> (\<forall>outcome. root (thread_poll i outcome a1) = root a1
                  \<and> \<not> is_alive (thread_poll i outcome a1) i)"
proof -
  obtain a1 where a1: "stop_monitoring a = Inr a1" "root a1 = cancelled_root a"
      "pending_restore_job a1 = None" "\<not> game_currently_running a1"
      "threads a1 = (threads a)[i := stop (threads a ! i)]"
    using stop_monitoring_Some[OF m(1)] by blast
  have s: "stop_event (threads a1 ! i)" using a1(5) m(2) by (simp add: stop_def)
  have l: "i < length (threads a1)" using a1(5) m(2) by simp
  have "restore_jobs (root a1) = []" using a1(2) cancelled_root_jobs[OF i] by simp
  then show ?thesis using a1 s run_stopped[OF s] thread_poll_stopped[OF l s] by blast
qed

lemma stop_twice: "\<exists>a1. stop_monitoring a = Inr a1 \<and> stop_monitoring a1 = Inr a1 \<and> monitor_thread a1 = None"
proof (cases "monitor_thread a")
  case None
  then show ?thesis by (simp add: stop_monitoring_None)
next
  case (Some i)
  then obtain a1 where "stop_monitoring a = Inr a1" "monitor_thread a1 = None"
    using stop_monitoring_Some[OF Some] by blast
  then show ?thesis by (simp add: stop_monitoring_None)
qed

lemma monitor_loop_stopped: "monitor_loop (gm_stop_monitoring g) ticks = ([], gm_stop_monitoring g)"
  by (cases ticks) (auto simp: gm_stop_monitoring_def)

text \<open>
  Claim C8, as amended. \<^verbatim>\<open>_stop_monitoring\<close> never raises, and a second call right after
  it changes nothing. A call that finds a monitor thread registered sets the thread's stop
  event, so that its loop polls no more, and cancels the pending restore: no handle is
  left. In the state the application starts in there is no thread and no handle, and the
  call changes nothing. A call that finds no monitor thread registered returns at once.
  \<^verbatim>\<open>GameMonitor.stop_monitoring\<close> is idempotent too, does nothing to a monitor that was
  never started, and the loop of a stopped monitor polls no more.
\<close>

theorem stop_idempotent:
  "(\<exists>a1. stop_monitoring a = Inr a1 \<and> stop_monitoring a1 = Inr a1 \<and> monitor_thread a1 = None)
   \<and> (monitor_thread a = None \<longrightarrow> stop_monitoring a = Inr a)
   \<and> (pending_invariant a \<and> monitor_thread a = Some i \<and> i < length (threads a) \<longrightarrow>
        (\<exists>a1. stop_monitoring a = Inr a1 \<and> stop_monitoring a1 = Inr a1
            \<and> pending_restore_job a1 = None \<and> restore_jobs (root a1) = []
            \<and> stop_event (threads a1 ! i)
            \<and> (\<forall>ticks. run (threads a1 ! i) ticks = ([], Returned))
            \<and> (\<forall>outcome. root (thread_poll i outcome a1) = root a1
                  \<and> \<not> is_alive (thread_poll i outcome a1) i)))
   \<and> stop_monitoring (DeltaForceConfigApp sd sp d) = Inr (DeltaForceConfigApp sd sp d)
   \<and> pending_restore_job (DeltaForceConfigApp sd sp d) = None
   \<and> restore_jobs (root (DeltaForceConfigApp sd sp d)) = []
   \<and> threads (DeltaForceConfigApp sd sp d) = []
   \<and> gm_stop_monitoring (gm_stop_monitoring g) = gm_stop_monitoring g
   \<and> monitor_loop (gm_stop_monitoring g) ticks = ([], gm_stop_monitoring g)
   \<and> gm_stop_monitoring (GameMonitor p stem n) = GameMonitor p stem n"
proof -
  have r: "pending_invariant a \<and> monitor_thread a = Some i \<and> i < length (threads a) \<longrightarrow>
        (\<exists>a1. stop_monitoring a = Inr a1 \<and> stop_monitoring a1 = Inr a1
            \<and> pending_restore_job a1 = None \<and> restore_jobs (root a1) = []
            \<and> stop_event (threads a1 ! i)
            \<and> (\<forall>ticks. run (threads a1 ! i) ticks = ([], Returned))
            \<and> (\<forall>outcome. root (thread_poll i outcome a1) = root a1
                  \<and> \<not> is_alive (thread_poll i outcome a1) i))"
  proof
    assume h: "pending_invariant a \<and> monitor_thread a = Some i \<and> i < length (threads a)"
    then obtain a1 where a1: "stop_monitoring a = Inr a1 \<and> pending_restore_job a1 = None
            \<and> restore_jobs (root a1) = [] \<and> \<not> game_currently_running a1
            \<and> stop_event (threads a1 ! i)
            \<and> (\<forall>ticks. run (threads a1 ! i) ticks = ([], Returned))
            \<and> (\<forall>outcome. root (thread_poll i outcome a1) = root a1
                  \<and> \<not> is_alive (thread_poll i outcome a1) i)"
      using stop_registered[of a i] by blast
    moreover have "stop_monitoring a1 = Inr a1" using stop_twice[of a] a1 by auto
    ultimately show "\<exists>a1. stop_monitoring a = Inr a1 \<and> stop_monitoring a1 = Inr a1
            \<and> pending_restore_job a1 = None \<and> restore_jobs (root a1) = []
            \<and> stop_event (threads a1 ! i)
            \<and> (\<forall>ticks. run (threads a1 ! i) ticks = ([], Returned))
            \<and> (\<forall>outcome. root (thread_poll i outcome a1) = root a1
                  \<and> \<not> is_alive (thread_poll i outcome a1) i)"
      by blast
  qed
  have init: "stop_monitoring (DeltaForceConfigApp sd sp d) = Inr (DeltaForceConfigApp sd sp d)
   \<and> pending_restore_job (DeltaForceConfigApp sd sp d) = None
   \<and> restore_jobs (root (DeltaForceConfigApp sd sp d)) = []
   \<and> threads (DeltaForceConfigApp sd sp d) = []"
    by (simp add: stop_monitoring_def DeltaForceConfigApp_def restore_jobs_def after_def)
  have gm: "gm_stop_monitoring (gm_stop_monitoring g) = gm_stop_monitoring g
   \<and> gm_stop_monitoring (GameMonitor p stem n) = GameMonitor p stem n"
    by (simp add: gm_stop_monitoring_def GameMonitor_def)
  have n: "monitor_thread a = None \<longrightarrow> stop_monitoring a = Inr a"
    by (simp add: stop_monitoring_None)
  show ?thesis using stop_twice[of a] n r init gm monitor_loop_stopped[of g ticks] by blast
qed

theorem stop_idempotent_witness:
  "pending_invariant monitoring_app \<and> monitor_thread monitoring_app = Some 0
   \<and> 0 < length (threads monitoring_app)
   \<and> (\<exists>a1. stop_monitoring monitoring_app = Inr a1 \<and> stop_monitoring a1 = Inr a1
         \<and> pending_restore_job a1 = None \<and> restore_jobs (root a1) = []
         \<and> stop_event (threads a1 ! 0)
         \<and> run (threads a1 ! 0) [(Inr True, False)] = ([], Returned))
   \<and> monitor_thread example_app = None
   \<and> stop_monitoring example_app = Inr example_app
   \<and> pending_restore_job example_app = None"
  using stop_idempotent[of monitoring_app 0 "Some 0" "Some example_config" example_disk
      "GameMonitor example_exe example_stem 3" "[]" example_exe example_stem 3]
    stop_idempotent[of example_app 0 "Some 0" "Some example_config" example_disk
      "GameMonitor example_exe example_stem 3" "[]" example_exe example_stem 3]
    monitoring_app_inv monitoring_app_fields(1,2) example_app_fields(8)
  by (simp add: example_app_def[symmetric]) blast

text \<open>
  Claim C8 as stated fails for two stops in a row that find no monitor thread registered:
  the handle scheduled by the started-edge that Tk delivered after the first stop is
  still pending, and still in the timer queue, after them.
\<close>

theorem handle_survives_repeated_stop:
  "pending_after (exec repeated_stop_trace delayed_app) = Some (Some 3, [3], None)"
  by (simp add: pending_after_def repeated_stop_trace_def delayed_app_def DeltaForceConfigApp_def step_def
     start_monitoring_def exists_def example_disk_def example_config_def BACKUP_FILE_def after_def
     is_alive_def ConfigMonitor_def persist_settings_def get_restore_delay_seconds_def log_message_def
     Let_def thread_poll_def edge_calls_def post_def config_monitor.defs thread.defs
     stop_monitoring_def stop_def after_cancel_def remove_timer_def dispatch_def run_callback_def
     on_game_started_def send_notification_def restore_jobs_def no_restore_faults_def
     DEFAULT_RESTORE_DELAY_SECONDS_def CHECK_INTERVAL_SECONDS_def)

end
